theory Spec2Isabelle
  imports Main "HOL-Library.Word"
begin

unbundle bit_operations_syntax

section \<open>Python values used by WaveMU.py\<close>

subsection \<open>Binary64 floating point\<close>

text \<open>
  A finite Python float is kept as a pair \<open>(m, e)\<close> standing for \<open>m * 2 ^ e\<close>.
  Every arithmetic result is rounded to 53 significant bits, ties to even, as IEEE 754
  binary64 does. Overflow to infinity and subnormal numbers are outside this model: the
  program only multiplies and divides small integers and the constant 0.01.
\<close>

type_synonym float = "int \<times> int"

fun bit_length :: "nat \<Rightarrow> nat" where
  "bit_length n = (if n = 0 then 0 else 1 + bit_length (n div 2))"

declare bit_length.simps [simp del]

text \<open>
  Rounding a non-negative mantissa \<open>a\<close> to \<open>a / 2 ^ k\<close>: the quotient, plus one
  when the remainder is above half, or is exactly half and the quotient is odd.
\<close>

definition round_shift :: "int \<Rightarrow> nat \<Rightarrow> int" where
  "round_shift a k =
     a div 2 ^ k +
     (if 2 ^ (k - 1) < a mod 2 ^ k \<or> (a mod 2 ^ k = 2 ^ (k - 1) \<and> odd (a div 2 ^ k))
      then 1 else 0)"

fun round53 :: "float \<Rightarrow> float" where
  "round53 (m, e) =
     (if bit_length (nat \<bar>m\<bar>) \<le> 53 then (m, e)
      else (sgn m * round_shift \<bar>m\<bar> (bit_length (nat \<bar>m\<bar>) - 53),
            e + int (bit_length (nat \<bar>m\<bar>) - 53)))"

definition float_of_int :: "int \<Rightarrow> float" where
  "float_of_int i = round53 (i, 0)"

fun fmul :: "float \<Rightarrow> float \<Rightarrow> float" where
  "fmul (m1, e1) (m2, e2) = round53 (m1 * m2, e1 + e2)"

datatype error =
    StopIteration
  | ZeroDivisionError
  | IndexError
  | AttributeError
  | TypeError
  | ReprNotModelled
  | LibraryError string

text \<open>
  True division \<open>x / y\<close>. The quotient of the mantissas is computed with at least 55
  bits and a sticky bit for a non-zero remainder, then rounded like every other result.
\<close>

definition fdiv_shift :: "int \<Rightarrow> int \<Rightarrow> nat" where
  "fdiv_shift a b = (bit_length (nat b) + 55) - bit_length (nat a)"

definition fdiv_quot :: "int \<Rightarrow> int \<Rightarrow> nat \<Rightarrow> int" where
  "fdiv_quot a b s = 2 * ((a * 2 ^ s) div b) + (if (a * 2 ^ s) mod b = 0 then 0 else 1)"

fun fdiv :: "float \<Rightarrow> float \<Rightarrow> error + float" where
  "fdiv (m1, e1) (m2, e2) =
     (if m2 = 0 then Inl ZeroDivisionError
      else Inr (round53 (sgn m1 * sgn m2 * fdiv_quot \<bar>m1\<bar> \<bar>m2\<bar> (fdiv_shift \<bar>m1\<bar> \<bar>m2\<bar>),
                         e1 - e2 - int (fdiv_shift \<bar>m1\<bar> \<bar>m2\<bar>) - 1)))"

text \<open>\<open>int(x)\<close> of a float truncates towards zero.\<close>

fun int_of_float :: "float \<Rightarrow> int" where
  "int_of_float (m, e) =
     (if 0 \<le> e then m * 2 ^ nat e else sgn m * (\<bar>m\<bar> div 2 ^ nat (- e)))"

text \<open>\<open>round(x)\<close> of a float with no digits argument: nearest integer, ties to even.\<close>

fun round_float :: "float \<Rightarrow> int" where
  "round_float (m, e) =
     (if 0 \<le> e then m * 2 ^ nat e
      else m div 2 ^ nat (- e) +
           (if 2 ^ nat (- e) < 2 * (m mod 2 ^ nat (- e)) \<or>
               (2 * (m mod 2 ^ nat (- e)) = 2 ^ nat (- e) \<and> odd (m div 2 ^ nat (- e)))
            then 1 else 0))"

text \<open>\<open>math.modf(x)\<close>: the fractional and the whole part, both exact.\<close>

fun modf :: "float \<Rightarrow> float \<times> int" where
  "modf (m, e) =
     (if 0 \<le> e then ((0, 0), m * 2 ^ nat e)
      else ((m - int_of_float (m, e) * 2 ^ nat (- e), e), int_of_float (m, e)))"

text \<open>Whether a float is an integer (\<open>x.is_integer()\<close>).\<close>

fun is_integer :: "float \<Rightarrow> bool" where
  "is_integer (m, e) = (0 \<le> e \<or> m mod 2 ^ nat (- e) = 0)"

declare round53.simps [simp del] fmul.simps [simp del] fdiv.simps [simp del]
  int_of_float.simps [simp del] round_float.simps [simp del] modf.simps [simp del]
  is_integer.simps [simp del]

text \<open>The literal \<open>0.01\<close>: the binary64 number nearest to 1/100, \<open>0x1.47ae147ae147bp-7\<close>.\<close>

definition lit_0_01 :: float where
  "lit_0_01 = (5764607523034235, - 59)"

subsection \<open>Strings of integers\<close>

definition digit_char :: "nat \<Rightarrow> char" where
  "digit_char d = ''0123456789'' ! d"

fun digits :: "nat \<Rightarrow> string" where
  "digits n = (if n < 10 then [digit_char n] else digits (n div 10) @ [digit_char (n mod 10)])"

declare digits.simps [simp del]

text \<open>\<open>str(i)\<close> for an integer.\<close>

definition str_int :: "int \<Rightarrow> string" where
  "str_int i = (if i < 0 then CHR ''-'' # digits (nat (- i)) else digits (nat i))"

text \<open>\<open>"%0wd" % i\<close>: the sign, then zeros up to width \<open>w\<close>, then the digits.\<close>

definition fmt_0d :: "nat \<Rightarrow> int \<Rightarrow> string" where
  "fmt_0d w i =
     (if i < 0
      then CHR ''-'' # replicate (w - 1 - length (digits (nat (- i)))) CHR ''0'' @ digits (nat (- i))
      else replicate (w - length (digits (nat i))) CHR ''0'' @ digits (nat i))"

subsection \<open>datetime and timedelta\<close>

text \<open>
  A naive \<open>datetime\<close> as Python keeps it. A \<open>timedelta\<close> is a whole number of
  microseconds; \<open>total_seconds()\<close> only rescales it, so the model keeps microseconds.
\<close>

record datetime =
  dt_year :: nat
  dt_month :: nat
  dt_day :: nat
  dt_hour :: nat
  dt_minute :: nat
  dt_second :: nat
  dt_microsecond :: nat

type_synonym timedelta = int

text \<open>\<open>strftime("%H:%M:%S")\<close> and \<open>strftime("%Y-%m-%d")\<close>.\<close>

definition strftime_HMS :: "datetime \<Rightarrow> string" where
  "strftime_HMS t =
     fmt_0d 2 (int (dt_hour t)) @ '':'' @ fmt_0d 2 (int (dt_minute t)) @ '':'' @
     fmt_0d 2 (int (dt_second t))"

definition strftime_Ymd :: "datetime \<Rightarrow> string" where
  "strftime_Ymd t =
     fmt_0d 4 (int (dt_year t)) @ ''-'' @ fmt_0d 2 (int (dt_month t)) @ ''-'' @
     fmt_0d 2 (int (dt_day t))"

text \<open>The proleptic Gregorian ordinal of a date, as \<open>date.toordinal()\<close> computes it.\<close>

definition is_leap :: "nat \<Rightarrow> bool" where
  "is_leap y = (y mod 4 = 0 \<and> (y mod 100 \<noteq> 0 \<or> y mod 400 = 0))"

definition days_before_year :: "nat \<Rightarrow> int" where
  "days_before_year y =
     (int y - 1) * 365 + (int y - 1) div 4 - (int y - 1) div 100 + (int y - 1) div 400"

definition days_before_month :: "nat \<Rightarrow> nat \<Rightarrow> int" where
  "days_before_month y m =
     [0, 0, 31, 59, 90, 120, 151, 181, 212, 243, 273, 304, 334] ! m +
     (if 2 < m \<and> is_leap y then 1 else 0)"

definition ymd2ord :: "nat \<Rightarrow> nat \<Rightarrow> nat \<Rightarrow> int" where
  "ymd2ord y m d = days_before_year y + days_before_month y m + int d"

definition to_microseconds :: "datetime \<Rightarrow> int" where
  "to_microseconds t =
     (((ymd2ord (dt_year t) (dt_month t) (dt_day t) * 24 + int (dt_hour t)) * 60 +
        int (dt_minute t)) * 60 + int (dt_second t)) * 1000000 + int (dt_microsecond t)"

text \<open>\<open>a - b\<close> on two datetimes.\<close>

definition datetime_sub :: "datetime \<Rightarrow> datetime \<Rightarrow> timedelta" where
  "datetime_sub a b = to_microseconds a - to_microseconds b"

text \<open>
  \<open>timedelta(seconds=x)\<close> for a float \<open>x\<close>: the whole seconds, plus the fraction
  scaled to microseconds and rounded to the nearest integer, ties to even.
\<close>

definition timedelta_seconds :: "float \<Rightarrow> timedelta" where
  "timedelta_seconds x =
     snd (modf x) * 1000000 + round_float (fmul (fst (modf x)) (float_of_int 1000000))"

subsection \<open>Sample arrays\<close>

type_synonym sample = "16 word"
type_synonym byte = "8 word"

text \<open>
  A numpy array of \<open>int16\<close>: one-dimensional, or two-dimensional as the list of its
  rows. \<open>soundfile\<close> delivers blocks of shape (frames, channels), and one-dimensional
  blocks for a mono file.
\<close>

datatype ndarray = Arr1 "sample list" | Arr2 "sample list list"

fun arr_T :: "ndarray \<Rightarrow> ndarray" where
  "arr_T (Arr1 xs) = Arr1 xs"
| "arr_T (Arr2 rows) = Arr2 (transpose rows)"

definition byteswap16 :: "sample \<Rightarrow> sample" where
  "byteswap16 w = push_bit 8 w OR drop_bit 8 w"

fun byteswap :: "ndarray \<Rightarrow> ndarray" where
  "byteswap (Arr1 xs) = Arr1 (map byteswap16 xs)"
| "byteswap (Arr2 rows) = Arr2 (map (map byteswap16) rows)"

text \<open>\<open>a[i, :]\<close>: a one-dimensional array has no second axis.\<close>

fun index_row :: "ndarray \<Rightarrow> nat \<Rightarrow> error + sample list" where
  "index_row (Arr1 xs) i = Inl IndexError"
| "index_row (Arr2 rows) i = (if i < length rows then Inr (rows ! i) else Inl IndexError)"

text \<open>The memory of an array on a little-endian host: low byte first.\<close>

definition sample_bytes :: "sample \<Rightarrow> byte list" where
  "sample_bytes w = [ucast w, ucast (drop_bit 8 w)]"

fun tobytes :: "ndarray \<Rightarrow> byte list" where
  "tobytes (Arr1 xs) = concat (map sample_bytes xs)"
| "tobytes (Arr2 rows) = concat (map (\<lambda>r. concat (map sample_bytes r)) rows)"

text \<open>The big-endian 16-bit encoding of a sample: high byte first.\<close>

definition be_bytes :: "sample \<Rightarrow> byte list" where
  "be_bytes w = [ucast (drop_bit 8 w), ucast w]"

subsection \<open>Base64\<close>

definition b64chars :: string where
  "b64chars = ''ABCDEFGHIJKLMNOPQRSTUVWXYZabcdefghijklmnopqrstuvwxyz0123456789+/''"

definition b64char :: "nat \<Rightarrow> char" where
  "b64char i = b64chars ! i"

text \<open>\<open>base64.standard_b64encode\<close> (RFC 4648, with padding).\<close>

fun b64encode :: "byte list \<Rightarrow> string" where
  "b64encode [] = []"
| "b64encode [a] =
     [b64char (unat a div 4), b64char (unat a mod 4 * 16), CHR ''='', CHR ''='']"
| "b64encode [a, b] =
     [b64char (unat a div 4), b64char (unat a mod 4 * 16 + unat b div 16),
      b64char (unat b mod 16 * 4), CHR ''='']"
| "b64encode (a # b # c # rest) =
     [b64char (unat a div 4), b64char (unat a mod 4 * 16 + unat b div 16),
      b64char (unat b mod 16 * 4 + unat c div 64), b64char (unat c mod 64)] @ b64encode rest"

text \<open>The decoder of the receiving side (\<open>base64.standard_b64decode\<close>).\<close>

fun index_of :: "'a \<Rightarrow> 'a list \<Rightarrow> nat" where
  "index_of x [] = 0"
| "index_of x (y # ys) = (if x = y then 0 else Suc (index_of x ys))"

definition b64val :: "char \<Rightarrow> nat" where
  "b64val c = index_of c b64chars"

fun b64decode :: "string \<Rightarrow> byte list" where
  "b64decode (p # q # r # s # rest) =
     (if r = CHR ''='' then [of_nat (b64val p * 4 + b64val q div 16)]
      else if s = CHR ''='' then
        [of_nat (b64val p * 4 + b64val q div 16), of_nat (b64val q mod 16 * 16 + b64val r div 4)]
      else
        [of_nat (b64val p * 4 + b64val q div 16), of_nat (b64val q mod 16 * 16 + b64val r div 4),
         of_nat (b64val r mod 4 * 64 + b64val s)] @ b64decode rest)"
| "b64decode _ = []"

section \<open>The decoder and the block generator\<close>

text \<open>
  What a generator does on one \<open>next\<close>: it yields a value or raises. A generator that
  has no item left raises \<open>StopIteration\<close>.
\<close>

datatype 'a gen_item = Yield 'a | Raise error

text \<open>
  \<open>soundfile.blocks(path, blocksize, overlap=0, dtype='int16')\<close> on a file that
  decodes without error, after the documentation of the library: the frames of the file in
  consecutive blocks of \<open>blocksize\<close> frames; with no \<open>fill_value\<close> the last block is
  shorter when the frames run out. A mono file gives one-dimensional blocks.
\<close>

record soundfile =
  sf_channels :: nat
  sf_frames :: "sample list list"

function chunks :: "nat \<Rightarrow> 'a list \<Rightarrow> 'a list list" where
  "chunks k xs = (if k = 0 \<or> xs = [] then [] else take k xs # chunks k (drop k xs))"
  by pat_completeness auto
termination
  by (relation "measure (\<lambda>(k, xs). length xs)") auto

declare chunks.simps [simp del]

definition sf_blocks :: "soundfile \<Rightarrow> nat \<Rightarrow> ndarray gen_item list" where
  "sf_blocks f blocksize =
     map (\<lambda>c. Yield (if sf_channels f = 1 then Arr1 (map hd c) else Arr2 c))
       (chunks blocksize (sf_frames f))"

text \<open>
  \<open>readWaveFileGen\<close>: every block of the decoder is transposed and byte-swapped. The
  argument is what \<open>sf.blocks(waveFilePath, blocksize=128, overlap=0, dtype='int16')\<close>
  delivers. An exception of the decoder leaves the generator, which is finished then.
\<close>

fun readWaveFileGen :: "ndarray gen_item list \<Rightarrow> ndarray gen_item list" where
  "readWaveFileGen [] = []"
| "readWaveFileGen (Yield block # rest) = Yield (byteswap (arr_T block)) # readWaveFileGen rest"
| "readWaveFileGen (Raise e # rest) = [Raise e]"

section \<open>The XML template and the frame record\<close>

text \<open>
  An element of the lxml tree: tag, text and children. Attributes and tails are never
  read or written by the program and are left out. \<open>etree.tostring\<close> is a function of
  the tree, so the model takes the tree itself for the bytes that are sent.
\<close>

datatype xml = Element (tag: string) (etext: "string option") (children: "xml list")

text \<open>The Python values that occur in \<open>resultDict\<close>.\<close>

datatype pyval =
    PInt int
  | PStr string
  | PBytes string
  | PArr ndarray
  | PDict "string \<Rightarrow> pyval option"

type_synonym pydict = "string \<Rightarrow> pyval option"

text \<open>
  \<open>str(v)\<close>. The \<open>repr\<close> of an array, of a dict and of a bytes object is not
  modelled; the program never asks for it.
\<close>

fun py_str :: "pyval \<Rightarrow> error + pyval" where
  "py_str (PInt i) = Inr (PStr (str_int i))"
| "py_str (PStr s) = Inr (PStr s)"
| "py_str _ = Inl ReprNotModelled"

text \<open>\<open>base64.standard_b64encode(v)\<close>: \<open>v\<close> must offer a buffer of bytes.\<close>

fun standard_b64encode :: "pyval \<Rightarrow> error + pyval" where
  "standard_b64encode (PArr a) = Inr (PBytes (b64encode (tobytes a)))"
| "standard_b64encode (PBytes s) = Inr (PBytes (b64encode (map of_char s)))"
| "standard_b64encode _ = Inl TypeError"

definition dictTypeConvert :: "string \<Rightarrow> pyval \<Rightarrow> error + pyval" where
  "dictTypeConvert key =
     (if key = ''Frame'' then py_str
      else if key = ''Fs'' then py_str
      else if key = ''n'' then py_str
      else if key = ''Channels'' then py_str
      else if key = ''Payload'' then standard_b64encode
      else if key = ''bits'' then py_str
      else (\<lambda>x. Inr x))"

text \<open>\<open>element.text = v\<close>: lxml takes a \<open>str\<close> or ASCII \<open>bytes\<close>.\<close>

fun set_text :: "xml \<Rightarrow> pyval \<Rightarrow> error + xml" where
  "set_text (Element t _ cs) (PStr s) = Inr (Element t (Some s) cs)"
| "set_text (Element t _ cs) (PBytes s) = Inr (Element t (Some s) cs)"
| "set_text _ _ = Inl TypeError"

definition startswith :: "string \<Rightarrow> string \<Rightarrow> bool" where
  "startswith s p = (take (length p) s = p)"

text \<open>Sequencing of steps that may raise: the first exception ends the computation.\<close>

definition and_then :: "error + 'a \<Rightarrow> ('a \<Rightarrow> error + 'b) \<Rightarrow> error + 'b" where
  "and_then r f = (case r of Inl e \<Rightarrow> Inl e | Inr x \<Rightarrow> f x)"

section \<open>The class WaveMU\<close>

record WaveMU =
  waveFilePath :: string
  channels :: int
  interval :: float
  Fs :: int
  n :: int
  ADCRange :: int
  bits :: int
  ip :: string
  port :: int
  stopThread :: bool
  xmlTemplate :: xml

text \<open>\<open>int(self.Fs * self.interval)\<close>.\<close>

definition samples_per_frame :: "int \<Rightarrow> float \<Rightarrow> int" where
  "samples_per_frame fs iv = int_of_float (fmul (float_of_int fs) iv)"

text \<open>
  \<open>__init__\<close>. The template is the parsed file \<open>OpenPMU_SV.xml\<close>, which is not part of
  the sources and is a parameter here. The printed length of the file is left out.
\<close>

definition init :: "string \<Rightarrow> int \<Rightarrow> string \<Rightarrow> int \<Rightarrow> xml \<Rightarrow> WaveMU" where
  "init path chans addr prt template =
     \<lparr>waveFilePath = path, channels = chans, interval = lit_0_01, Fs = 12800,
      n = samples_per_frame 12800 lit_0_01, ADCRange = 2 ^ 15 - 1, bits = 16,
      ip = addr, port = prt, stopThread = False, xmlTemplate = template\<rparr>"

definition stop :: "WaveMU \<Rightarrow> WaveMU" where
  "stop self = self\<lparr>stopThread := True\<rparr>"

subsection \<open>toXML\<close>

text \<open>The inner loop over the children of a \<open>Channel_\<close> element; \<open>v\<close> is \<open>resultDict[tag1]\<close>.\<close>

fun toXML_level2 :: "pyval \<Rightarrow> xml list \<Rightarrow> error + xml list" where
  "toXML_level2 v [] = Inr []"
| "toXML_level2 v (level2 # rest) =
     (case v of
        PDict d \<Rightarrow>
          (case d (tag level2) of
             None \<Rightarrow> and_then (toXML_level2 v rest) (\<lambda>rest'. Inr (level2 # rest'))
           | Some x \<Rightarrow>
               and_then (dictTypeConvert (tag level2) x) (\<lambda>y.
               and_then (set_text level2 y) (\<lambda>level2'.
               and_then (toXML_level2 v rest) (\<lambda>rest'. Inr (level2' # rest')))))
      | _ \<Rightarrow> Inl AttributeError)"

text \<open>
  The outer loop over the children of the root. A child whose tag is no key of the record
  is removed from the tree.
\<close>

fun toXML_level1 :: "pydict \<Rightarrow> xml list \<Rightarrow> error + xml list" where
  "toXML_level1 resultDict [] = Inr []"
| "toXML_level1 resultDict (level1 # rest) =
     (case resultDict (tag level1) of
        None \<Rightarrow> toXML_level1 resultDict rest
      | Some v \<Rightarrow>
          and_then
            (if startswith (tag level1) ''Channel_''
             then and_then (toXML_level2 v (children level1))
                    (\<lambda>cs. Inr (Element (tag level1) (etext level1) cs))
             else and_then (dictTypeConvert (tag level1) v) (set_text level1))
            (\<lambda>level1'. and_then (toXML_level1 resultDict rest) (\<lambda>rest'. Inr (level1' # rest'))))"

text \<open>
  \<open>toXML\<close> works on the tree held by the object: the result is the object with its
  changed template, and the changed tree as the document. No step of the loops raises
  \<open>KeyError\<close> on a dict, so the handler of the source has no branch; every other
  exception leaves \<open>toXML\<close>.
\<close>

definition toXML :: "WaveMU \<Rightarrow> pydict \<Rightarrow> error + WaveMU \<times> xml" where
  "toXML self resultDict =
     and_then (toXML_level1 resultDict (children (xmlTemplate self)))
       (\<lambda>cs. Inr (self\<lparr>xmlTemplate :=
                     Element (tag (xmlTemplate self)) (etext (xmlTemplate self)) cs\<rparr>,
                 Element (tag (xmlTemplate self)) (etext (xmlTemplate self)) cs))"

subsection \<open>run\<close>

text \<open>
  The local variables of \<open>run\<close>, the object, and what \<open>run\<close> did to the outside: the
  datagrams given to each socket with their destination, and the arguments of the
  \<open>time.sleep\<close> at the end of each cycle, in microseconds. \<open>sendto\<close> is taken to
  deliver every datagram to the socket without an exception of the operating system, and
  \<open>run\<close> is followed on its own thread: a \<open>stop()\<close> called from another thread in
  the middle of a run has no place here.
\<close>

record run_state =
  self :: WaveMU
  resultDict :: pydict
  frame :: int
  intervalDelta :: timedelta
  socketOut :: "((string \<times> int) \<times> xml) list"
  socketFwd :: "((string \<times> int) \<times> xml) list"
  sleeps :: "int list"
  holdoff_sleeps :: nat

text \<open>
  The clock is an input. \<open>clk_now\<close> is the reading at the top of a cycle and
  \<open>clk_end\<close> the one taken for the residual sleep. The reading for the printed elapsed
  time is not used otherwise and is left out, as all printing is.
\<close>

record cycle_clock =
  clk_now :: datetime
  clk_end :: datetime

record run_env =
  env_startTime :: datetime
  env_polls :: "datetime list"
  env_cycles :: "nat \<Rightarrow> cycle_clock"

text \<open>\<open>now.time().strftime("%H:%M:%S") + ".%03d" % (frame * self.interval * 1000)\<close>.\<close>

definition frame_millis :: "float \<Rightarrow> int \<Rightarrow> int" where
  "frame_millis iv fr = int_of_float (fmul (fmul (float_of_int fr) iv) (float_of_int 1000))"

definition time_field :: "WaveMU \<Rightarrow> datetime \<Rightarrow> int \<Rightarrow> string" where
  "time_field obj now fr =
     strftime_HMS now @ ''.'' @ fmt_0d 3 (frame_millis (interval obj) fr)"

text \<open>Lines 95 to 98: the time, date and frame number of the cycle.\<close>

definition stamp :: "cycle_clock \<Rightarrow> run_state \<Rightarrow> run_state" where
  "stamp c st =
     st\<lparr>resultDict := (resultDict st)
          (''Time'' \<mapsto> PStr (time_field (self st) (clk_now c) (frame st)),
           ''Date'' \<mapsto> PStr (strftime_Ymd (clk_now c)),
           ''Frame'' \<mapsto> PInt (frame st))\<rparr>"

definition channel_key :: "nat \<Rightarrow> string" where
  "channel_key i = ''Channel_'' @ str_int (int i)"

text \<open>The loop over \<open>range(self.channels)\<close>.\<close>

fun set_channels :: "ndarray \<Rightarrow> nat list \<Rightarrow> pydict \<Rightarrow> error + pydict" where
  "set_channels payload [] rd = Inr rd"
| "set_channels payload (i # rest) rd =
     and_then (index_row payload i)
       (\<lambda>row. set_channels payload rest
                 (rd(channel_key i \<mapsto> PDict [''Payload'' \<mapsto> PArr (Arr1 row)])))"

text \<open>\<open>int(1 / self.interval)\<close>.\<close>

definition frame_wrap :: "float \<Rightarrow> error + int" where
  "frame_wrap iv = and_then (fdiv (float_of_int 1) iv) (\<lambda>q. Inr (int_of_float q))"

text \<open>The argument of the \<open>time.sleep\<close> that ends a cycle.\<close>

definition residual_sleep :: "timedelta \<Rightarrow> cycle_clock \<Rightarrow> int" where
  "residual_sleep delta c =
     (if 0 < delta - datetime_sub (clk_end c) (clk_now c)
      then delta - datetime_sub (clk_end c) (clk_now c) else 0)"

text \<open>Lines 106 to 131: one cycle, once a block has been pulled.\<close>

definition cycle :: "cycle_clock \<Rightarrow> run_state \<Rightarrow> ndarray \<Rightarrow> error + run_state" where
  "cycle c st payload =
     and_then (set_channels payload [0..<nat (channels (self st))] (resultDict st)) (\<lambda>rd.
     and_then (toXML (self st) rd) (\<lambda>r.
     and_then (frame_wrap (interval (fst r))) (\<lambda>wrap.
       Inr (st\<lparr>self := fst r,
               resultDict := rd,
               frame := (if frame st + 1 = wrap then 0 else frame st + 1),
               socketOut := socketOut st @ [((ip (fst r), port (fst r)), snd r)],
               socketFwd := socketFwd st @ [((''127.0.0.1'', 48005), snd r)],
               sleeps := sleeps st @ [residual_sleep (intervalDelta st) c]\<rparr>))))"

text \<open>
  The \<open>while not self.stopThread\<close> loop; \<open>j\<close> counts the cycles and the list holds what
  the generator still has to give. Any exception of \<open>next(SVgen)\<close>, \<open>StopIteration\<close>
  included, is caught: \<open>self.stop()\<close> and \<open>break\<close>.
\<close>

fun while_loop ::
  "(nat \<Rightarrow> cycle_clock) \<Rightarrow> nat \<Rightarrow> run_state \<Rightarrow> ndarray gen_item list \<Rightarrow> error + run_state" where
  "while_loop clk j st [] =
     (if stopThread (self st) then Inr st
      else Inr ((stamp (clk j) st)\<lparr>self := stop (self st)\<rparr>))"
| "while_loop clk j st (Raise e # rest) =
     (if stopThread (self st) then Inr st
      else Inr ((stamp (clk j) st)\<lparr>self := stop (self st)\<rparr>))"
| "while_loop clk j st (Yield payload # rest) =
     (if stopThread (self st) then Inr st
      else case cycle (clk j) (stamp (clk j) st) payload of
             Inl e \<Rightarrow> Inl e
           | Inr st' \<Rightarrow> while_loop clk (Suc j) st' rest)"

text \<open>
  The wait for the top of the second: the clock is polled until its second differs from
  the one of \<open>startTime\<close>, with a sleep of 0.0001 s after each poll that does not. The
  result is the number of these sleeps; \<open>None\<close> when the readings end before the second
  has changed.
\<close>

fun hold_off :: "nat \<Rightarrow> datetime list \<Rightarrow> nat \<Rightarrow> nat option" where
  "hold_off s [] k = None"
| "hold_off s (p # ps) k = (if s = dt_second p then hold_off s ps (Suc k) else Some k)"

definition run :: "WaveMU \<Rightarrow> run_env \<Rightarrow> ndarray gen_item list \<Rightarrow> (error + run_state) option" where
  "run obj env decoded =
     (case hold_off (dt_second (env_startTime env)) (env_polls env) 0 of
        None \<Rightarrow> None
      | Some k \<Rightarrow>
          Some (while_loop (env_cycles env) 0
                  \<lparr>self = obj\<lparr>stopThread := False\<rparr>,
                   resultDict = [''Fs'' \<mapsto> PInt (Fs obj), ''n'' \<mapsto> PInt (n obj),
                                 ''Channels'' \<mapsto> PInt (channels obj), ''bits'' \<mapsto> PInt (bits obj)],
                   frame = 0,
                   intervalDelta = timedelta_seconds (interval obj),
                   socketOut = [], socketFwd = [], sleeps = [], holdoff_sleeps = k\<rparr>
                  (readWaveFileGen decoded)))"

section \<open>What a run shows to the outside\<close>

text \<open>
  The datagrams given to the two sockets by a run that returned, and the arguments of its
  end-of-cycle sleeps. A run that raised, or that is still waiting for the top of the
  second, shows nothing here.
\<close>

definition sent_out :: "(error + run_state) option \<Rightarrow> ((string \<times> int) \<times> xml) list" where
  "sent_out r = (case r of Some (Inr st) \<Rightarrow> socketOut st | _ \<Rightarrow> [])"

definition sent_fwd :: "(error + run_state) option \<Rightarrow> ((string \<times> int) \<times> xml) list" where
  "sent_fwd r = (case r of Some (Inr st) \<Rightarrow> socketFwd st | _ \<Rightarrow> [])"

definition emitted :: "(error + run_state) option \<Rightarrow> xml list" where
  "emitted r = map snd (sent_out r)"

definition slept :: "(error + run_state) option \<Rightarrow> int list" where
  "slept r = (case r of Some (Inr st) \<Rightarrow> sleeps st | _ \<Rightarrow> [])"

text \<open>A run that returned normally with the stop flag set.\<close>

definition stopped :: "(error + run_state) option \<Rightarrow> bool" where
  "stopped r = (case r of Some (Inr st) \<Rightarrow> stopThread (self st) | _ \<Rightarrow> False)"

text \<open>The texts of the top-level nodes of a document with a given tag, and their number.\<close>

definition field :: "string \<Rightarrow> xml \<Rightarrow> string option list" where
  "field k doc = map etext (filter (\<lambda>c. tag c = k) (children doc))"

definition count_tag :: "string \<Rightarrow> xml \<Rightarrow> nat" where
  "count_tag k doc = length (filter (\<lambda>c. tag c = k) (children doc))"

text \<open>The texts of the \<open>Payload\<close> nodes below the top-level nodes with a given tag.\<close>

definition payloads :: "string \<Rightarrow> xml \<Rightarrow> string option list" where
  "payloads k doc = concat (map (field ''Payload'') (filter (\<lambda>c. tag c = k) (children doc)))"

text \<open>All tags of a tree below its root.\<close>

fun tags_below :: "xml \<Rightarrow> string list" where
  "tags_below (Element t x cs) = concat (map (\<lambda>c. tag c # tags_below c) cs)"

section \<open>Records that toXML can encode\<close>

text \<open>
  A value that \<open>dictTypeConvert\<close> turns into a text for its key, and a record all of
  whose entries are such values, or dicts of such values under a \<open>Channel_\<close> key. The
  records that \<open>run\<close> builds are of this kind.
\<close>

definition text_ok :: "string \<Rightarrow> pyval \<Rightarrow> bool" where
  "text_ok k v =
     (case dictTypeConvert k v of
        Inr (PStr s) \<Rightarrow> True
      | Inr (PBytes s) \<Rightarrow> True
      | _ \<Rightarrow> False)"

definition wf_record :: "pydict \<Rightarrow> bool" where
  "wf_record rd \<longleftrightarrow>
     (\<forall>k v. rd k = Some v \<longrightarrow>
        (if startswith k ''Channel_''
         then \<exists>d. v = PDict d \<and> (\<forall>k2 x. d k2 = Some x \<longrightarrow> text_ok k2 x)
         else text_ok k v))"

section \<open>Conditions on the inputs of a run\<close>

text \<open>The clock leaves the second of \<open>startTime\<close> at some poll.\<close>

definition holds_off :: "run_env \<Rightarrow> bool" where
  "holds_off env =
     list_ex (\<lambda>p. dt_second p \<noteq> dt_second (env_startTime env)) (env_polls env)"

text \<open>
  A block of the decoder that has a column for each of the \<open>chans\<close> configured channels,
  so that \<open>payload[i, :]\<close> finds its row after the transposition.
\<close>

definition block_fits :: "int \<Rightarrow> ndarray \<Rightarrow> bool" where
  "block_fits chans b =
     (case b of Arr1 xs \<Rightarrow> chans \<le> 0 | Arr2 rows \<Rightarrow> nat chans \<le> length (transpose rows))"

text \<open>A file whose frames all have one sample for each of its channels.\<close>

definition wf_file :: "soundfile \<Rightarrow> bool" where
  "wf_file f = list_all (\<lambda>fr. length fr = sf_channels f) (sf_frames f)"

section \<open>The frames of a run\<close>

text \<open>The keys of the record whose values are numbers and strings.\<close>

definition scalar_keys :: "string set" where
  "scalar_keys = {''Fs'', ''n'', ''Channels'', ''bits'', ''Frame'', ''Time'', ''Date''}"

text \<open>
  The record that cycle \<open>j\<close> hands to \<open>toXML\<close>, for the object \<open>obj\<close> that \<open>run\<close>
  was called on, the clock readings \<open>c\<close> of the cycle and the block \<open>payload\<close> pulled
  in it. The frame number is the one of a run with 100 frames to the second.
\<close>

definition cycle_record :: "WaveMU \<Rightarrow> cycle_clock \<Rightarrow> nat \<Rightarrow> ndarray \<Rightarrow> pydict \<Rightarrow> bool" where
  "cycle_record obj c j payload rd \<longleftrightarrow>
     rd ''Fs'' = Some (PInt (Fs obj)) \<and> rd ''n'' = Some (PInt (n obj)) \<and>
     rd ''Channels'' = Some (PInt (channels obj)) \<and> rd ''bits'' = Some (PInt (bits obj)) \<and>
     rd ''Frame'' = Some (PInt (int (j mod 100))) \<and>
     rd ''Time'' = Some (PStr (time_field obj (clk_now c) (int (j mod 100)))) \<and>
     rd ''Date'' = Some (PStr (strftime_Ymd (clk_now c))) \<and>
     (\<forall>i < nat (channels obj). \<exists>row. index_row payload i = Inr row \<and>
        rd (channel_key i) = Some (PDict [''Payload'' \<mapsto> PArr (Arr1 row)]))"

text \<open>
  What holds at the top of cycle \<open>j\<close> of a run on \<open>obj\<close> with the interval 0.01, and how
  the document of cycle \<open>j\<close> came about: by \<open>toXML\<close> from the record of the cycle and a
  template that has as many nodes for each scalar key as the template of \<open>obj\<close>.
\<close>

definition loop_inv :: "WaveMU \<Rightarrow> nat \<Rightarrow> run_state \<Rightarrow> bool" where
  "loop_inv obj j st \<longleftrightarrow>
     length (socketOut st) = j \<and> frame st = int (j mod 100) \<and>
     interval (self st) = lit_0_01 \<and> interval obj = lit_0_01 \<and>
     channels (self st) = channels obj \<and>
     resultDict st ''Fs'' = Some (PInt (Fs obj)) \<and> resultDict st ''n'' = Some (PInt (n obj)) \<and>
     resultDict st ''Channels'' = Some (PInt (channels obj)) \<and>
     resultDict st ''bits'' = Some (PInt (bits obj)) \<and>
     (\<forall>k \<in> scalar_keys. count_tag k (xmlTemplate (self st)) = count_tag k (xmlTemplate obj))"

definition emitted_by ::
  "WaveMU \<Rightarrow> (nat \<Rightarrow> cycle_clock) \<Rightarrow> ndarray gen_item list \<Rightarrow> nat \<Rightarrow> xml \<Rightarrow> bool" where
  "emitted_by obj clk gen j doc \<longleftrightarrow>
     (\<exists>payload rd cs.
        j < length gen \<and> gen ! j = Yield payload \<and> cycle_record obj (clk j) j payload rd \<and>
        toXML_level1 rd cs = Inr (children doc) \<and>
        (\<forall>k \<in> scalar_keys. length (filter (\<lambda>c. tag c = k) cs) = count_tag k (xmlTemplate obj)))"

section \<open>Example inputs\<close>

definition at_time :: "nat \<Rightarrow> nat \<Rightarrow> nat \<Rightarrow> nat \<Rightarrow> datetime" where
  "at_time h m s us =
     \<lparr>dt_year = 2021, dt_month = 3, dt_day = 1, dt_hour = h, dt_minute = m, dt_second = s,
      dt_microsecond = us\<rparr>"

definition ex_template :: xml where
  "ex_template =
     Element ''OpenPMU'' None
       [Element ''Format'' (Some ''Samples'') [],
        Element ''Date'' None [],
        Element ''Time'' None [],
        Element ''Frame'' None [],
        Element ''Fs'' None [],
        Element ''n'' None [],
        Element ''bits'' None [],
        Element ''Channels'' None [],
        Element ''Channel_0'' None [Element ''Name'' None [], Element ''Payload'' None []],
        Element ''Channel_1'' None [Element ''Payload'' None []],
        Element ''Channel_5'' None [Element ''Payload'' None []]]"

definition ex_obj :: WaveMU where
  "ex_obj = init ''example.flac'' 2 ''127.0.0.1'' 48001 ex_template"

text \<open>A stereo file of one frame: no full block, and a partial block of one sample.\<close>

definition ex_file :: soundfile where
  "ex_file = \<lparr>sf_channels = 2, sf_frames = [[0x0102, 0x0304]]\<rparr>"

text \<open>A stereo file of 129 frames: one full block, and a partial block of one sample.\<close>

definition ex_file_129 :: soundfile where
  "ex_file_129 = \<lparr>sf_channels = 2, sf_frames = replicate 129 [0x0102, 0x0304]\<rparr>"

text \<open>
  Two clocks with the same synchronisation instant 12:00:00. With the first, every cycle
  takes 3 ms and starts 10 ms after the one before. With the second, every cycle is held
  up and takes a second and a half.
\<close>

definition ex_env :: run_env where
  "ex_env =
     \<lparr>env_startTime = at_time 11 59 59 999000,
      env_polls = [at_time 11 59 59 999500, at_time 12 0 0 100],
      env_cycles = (\<lambda>j. \<lparr>clk_now = at_time 12 0 0 (200 + 10000 * j),
                           clk_end = at_time 12 0 0 (3200 + 10000 * j)\<rparr>)\<rparr>"

definition ex_env_delayed :: run_env where
  "ex_env_delayed =
     \<lparr>env_startTime = at_time 11 59 59 999000,
      env_polls = [at_time 11 59 59 999500, at_time 12 0 0 100],
      env_cycles = (\<lambda>j. \<lparr>clk_now = at_time 12 0 (2 * j) 200,
                           clk_end = at_time 12 0 (2 * j + 1) 500200\<rparr>)\<rparr>"

text \<open>A decoder that delivers the block of \<open>ex_file\<close> and fails at the next read.\<close>

definition ex_failing :: "ndarray gen_item list" where
  "ex_failing =
     map Yield [Arr2 [[0x0102, 0x0304]]] @ Raise (LibraryError ''Error in read'') # []"

text \<open>The document of the one frame of \<open>ex_file\<close> under \<open>ex_env\<close>.\<close>

definition ex_doc :: xml where
  "ex_doc =
     Element ''OpenPMU'' None
       [Element ''Date'' (Some ''2021-03-01'') [],
        Element ''Time'' (Some ''12:00:00.000'') [],
        Element ''Frame'' (Some ''0'') [],
        Element ''Fs'' (Some ''12800'') [],
        Element ''n'' (Some ''128'') [],
        Element ''bits'' (Some ''16'') [],
        Element ''Channels'' (Some ''2'') [],
        Element ''Channel_0'' None
          [Element ''Name'' None [], Element ''Payload'' (Some ''AQI='') []],
        Element ''Channel_1'' None [Element ''Payload'' (Some ''AwQ='') []]]"

text \<open>The record of that frame, and the same record with a \<open>Format\<close> entry.\<close>

definition ex_record :: pydict where
  "ex_record =
     [''Fs'' \<mapsto> PInt 12800, ''n'' \<mapsto> PInt 128, ''Channels'' \<mapsto> PInt 2, ''bits'' \<mapsto> PInt 16,
      ''Time'' \<mapsto> PStr ''12:00:00.000'', ''Date'' \<mapsto> PStr ''2021-03-01'', ''Frame'' \<mapsto> PInt 0,
      ''Channel_0'' \<mapsto> PDict [''Payload'' \<mapsto> PArr (Arr1 [0x0201])],
      ''Channel_1'' \<mapsto> PDict [''Payload'' \<mapsto> PArr (Arr1 [0x0403])]]"

definition ex_record_fmt :: pydict where
  "ex_record_fmt = ex_record(''Format'' \<mapsto> PStr ''Samples'')"

text \<open>The document that \<open>toXML\<close> returns, when it returns.\<close>

definition toXML_doc :: "WaveMU \<Rightarrow> pydict \<Rightarrow> xml option" where
  "toXML_doc obj rd = (case toXML obj rd of Inl e \<Rightarrow> None | Inr r \<Rightarrow> Some (snd r))"

section \<open>The configured constants\<close>

lemma bit_length_0: "bit_length 0 = 0"
  by (simp add: bit_length.simps)

lemma bit_length_1: "bit_length (Suc 0) = 1"
  by (simp add: bit_length.simps)

lemma bit_length_numeral: "bit_length (numeral w) = 1 + bit_length (numeral w div 2)"
  by (subst bit_length.simps) simp

lemmas float_eval =
  fdiv.simps fdiv_shift_def fdiv_quot_def round_shift_def fmul.simps round53.simps
  float_of_int_def int_of_float.simps round_float.simps modf.simps is_integer.simps
  lit_0_01_def bit_length_0 bit_length_1 bit_length_numeral

text \<open>The literal is the correctly rounded quotient of 1 by 100.\<close>

lemma lit_0_01_nearest: "fdiv (float_of_int 1) (float_of_int 100) = Inr lit_0_01"
  by (simp add: float_eval)

lemma samples_per_frame_128: "samples_per_frame 12800 lit_0_01 = 128"
  by (simp add: samples_per_frame_def float_eval)

lemma product_128: "fmul (float_of_int 12800) lit_0_01 = (4503599627370496, - 45)"
  by (simp add: float_eval)

lemma frame_wrap_100: "frame_wrap lit_0_01 = Inr 100"
  by (simp add: frame_wrap_def and_then_def float_eval)

lemma intervalDelta_10000: "timedelta_seconds lit_0_01 = 10000"
  by (simp add: timedelta_seconds_def float_eval)

lemma frame_millis_table:
  "list_all (\<lambda>f. frame_millis lit_0_01 f = 10 * f) (map int [0..<100])"
  by (simp add: frame_millis_def float_eval upt_rec)

lemma frame_millis_10: "0 \<le> f \<Longrightarrow> f < 100 \<Longrightarrow> frame_millis lit_0_01 f = 10 * f"
proof -
  assume a: "0 \<le> f" "f < 100"
  then have "f \<in> set (map int [0..<100])"
    by (auto simp: image_iff intro!: bexI [of _ "nat f"])
  with frame_millis_table show ?thesis
    by (simp only: list_all_iff)
qed

section \<open>Samples per frame (claim C3)\<close>

text \<open>
  Claim C3: for every valid configuration \<open>n\<close> equals \<open>Fs * interval\<close> exactly as a
  positive integer, and no construction gives a truncated \<open>n\<close> for a product that is
  not an integer. The constructor takes neither \<open>Fs\<close> nor \<open>interval\<close>: it sets them to
  12800 and 0.01 whatever its arguments are. So the product of every constructed object
  is the integer 128 exactly, \<open>n\<close> is that positive integer, and a construction with a
  product that is not an integer does not exist.
\<close>

theorem C3_samples_per_frame:
  "Fs (init path chans addr prt template) = 12800 \<and>
   interval (init path chans addr prt template) = lit_0_01 \<and>
   n (init path chans addr prt template) = 128 \<and>
   0 < n (init path chans addr prt template) \<and>
   is_integer (fmul (float_of_int (Fs (init path chans addr prt template)))
                 (interval (init path chans addr prt template))) \<and>
   int_of_float (fmul (float_of_int (Fs (init path chans addr prt template)))
                   (interval (init path chans addr prt template)))
     = n (init path chans addr prt template)"
  by (simp add: init_def samples_per_frame_128 product_128 is_integer.simps int_of_float.simps)

theorem C3_samples_per_frame_witness:
  "n (init ''example.flac'' 2 ''127.0.0.1'' 48001 (Element ''OpenPMU'' None [])) = 128"
  using C3_samples_per_frame [of "''example.flac''" 2 "''127.0.0.1''" 48001 "Element ''OpenPMU'' None []"]
  by simp

section \<open>Lemmas on toXML\<close>

lemma and_then_Inr [simp]: "and_then (Inr x) f = f x"
  by (simp add: and_then_def)

lemma and_then_Inl [simp]: "and_then (Inl e) f = Inl e"
  by (simp add: and_then_def)

lemma and_then_eq_Inr: "and_then r f = Inr y \<longleftrightarrow> (\<exists>x. r = Inr x \<and> f x = Inr y)"
  by (cases r) simp_all

lemma set_text_tag: "set_text c y = Inr c' \<Longrightarrow> tag c' = tag c \<and> children c' = children c"
  by (cases c; cases y) auto

lemma set_text_again: "set_text c y = Inr c' \<Longrightarrow> set_text c' y = Inr c'"
  by (cases c; cases y) auto

lemma set_text_etext:
  "set_text c y = Inr c' \<Longrightarrow> (\<exists>s. (y = PStr s \<or> y = PBytes s) \<and> etext c' = Some s)"
  by (cases c; cases y) auto

lemma toXML_level2_tags: "toXML_level2 v cs = Inr cs' \<Longrightarrow> map tag cs' = map tag cs"
proof (induction cs arbitrary: cs')
  case Nil
  then show ?case by simp
next
  case (Cons c cs)
  then show ?case
    by (auto simp: and_then_eq_Inr dest: set_text_tag split: pyval.splits option.splits)
qed

lemma toXML_level2_again: "toXML_level2 v cs = Inr cs' \<Longrightarrow> toXML_level2 v cs' = Inr cs'"
proof (induction cs arbitrary: cs')
  case Nil
  then show ?case by simp
next
  case (Cons c cs)
  from Cons.prems obtain d where d: "v = PDict d"
    by (auto split: pyval.splits)
  show ?case
  proof (cases "d (tag c)")
    case None
    with Cons d show ?thesis
      by (auto simp: and_then_eq_Inr)
  next
    case (Some x)
    with Cons.prems d obtain y c1 rest' where
      a: "dictTypeConvert (tag c) x = Inr y" "set_text c y = Inr c1"
      and b: "toXML_level2 v cs = Inr rest'" and c: "cs' = c1 # rest'"
      by (auto simp: and_then_eq_Inr)
    from a have "tag c1 = tag c" "set_text c1 y = Inr c1"
      by (auto dest: set_text_tag set_text_again)
    with Cons.IH [OF b] Some a c d show ?thesis by simp
  qed
qed

lemma toXML_level2_member:
  "toXML_level2 v cs = Inr cs' \<Longrightarrow> c' \<in> set cs' \<Longrightarrow>
   \<exists>d. v = PDict d \<and>
     (\<exists>c \<in> set cs. tag c' = tag c \<and>
        (case d (tag c) of
           None \<Rightarrow> c' = c
         | Some x \<Rightarrow> and_then (dictTypeConvert (tag c) x) (set_text c) = Inr c'))"
proof (induction cs arbitrary: cs')
  case Nil
  then show ?case by simp
next
  case (Cons c cs)
  then show ?case
    by (fastforce simp: and_then_eq_Inr dest: set_text_tag split: pyval.splits option.splits)
qed

lemma toXML_level1_tags:
  "toXML_level1 rd cs = Inr cs' \<Longrightarrow> map tag cs' = filter (\<lambda>t. rd t \<noteq> None) (map tag cs)"
proof (induction cs arbitrary: cs')
  case Nil
  then show ?case by simp
next
  case (Cons c cs)
  then show ?case
    by (auto simp: and_then_eq_Inr dest: set_text_tag split: option.splits if_splits)
qed

lemma toXML_level1_again: "toXML_level1 rd cs = Inr cs' \<Longrightarrow> toXML_level1 rd cs' = Inr cs'"
proof (induction cs arbitrary: cs')
  case Nil
  then show ?case by simp
next
  case (Cons c cs)
  show ?case
  proof (cases "rd (tag c)")
    case None
    with Cons show ?thesis by simp
  next
    case (Some v)
    show ?thesis
    proof (cases "startswith (tag c) ''Channel_''")
      case True
      with Some Cons.prems obtain cs2 rest' where
        a: "toXML_level2 v (children c) = Inr cs2"
        and b: "toXML_level1 rd cs = Inr rest'"
        and c: "cs' = Element (tag c) (etext c) cs2 # rest'"
        by (auto simp: and_then_eq_Inr)
      from a have "toXML_level2 v cs2 = Inr cs2" by (rule toXML_level2_again)
      with Cons.IH [OF b] Some True c show ?thesis by simp
    next
      case False
      with Some Cons.prems obtain y c1 rest' where
        a: "dictTypeConvert (tag c) v = Inr y" "set_text c y = Inr c1"
        and b: "toXML_level1 rd cs = Inr rest'"
        and c: "cs' = c1 # rest'"
        by (auto simp: and_then_eq_Inr)
      from a have "tag c1 = tag c" "set_text c1 y = Inr c1"
        by (auto dest: set_text_tag set_text_again)
      with Cons.IH [OF b] Some False a c show ?thesis by simp
    qed
  qed
qed

lemma toXML_level1_member:
  "toXML_level1 rd cs = Inr cs' \<Longrightarrow> c' \<in> set cs' \<Longrightarrow>
   \<exists>c \<in> set cs. \<exists>v. rd (tag c) = Some v \<and> tag c' = tag c \<and>
     (if startswith (tag c) ''Channel_''
      then \<exists>cs2. toXML_level2 v (children c) = Inr cs2 \<and> c' = Element (tag c) (etext c) cs2
      else and_then (dictTypeConvert (tag c) v) (set_text c) = Inr c')"
proof (induction cs arbitrary: cs')
  case Nil
  then show ?case by simp
next
  case (Cons c cs)
  show ?case
  proof (cases "rd (tag c)")
    case None
    with Cons show ?thesis by auto
  next
    case (Some v)
    with Cons.prems obtain c1 rest' where
      a: "(if startswith (tag c) ''Channel_''
           then and_then (toXML_level2 v (children c)) (\<lambda>cs. Inr (Element (tag c) (etext c) cs))
           else and_then (dictTypeConvert (tag c) v) (set_text c)) = Inr c1"
      and b: "toXML_level1 rd cs = Inr rest'" and c: "cs' = c1 # rest'"
      by (auto simp: and_then_eq_Inr)
    from Cons.prems(2) c consider "c' = c1" | "c' \<in> set rest'" by auto
    then show ?thesis
    proof cases
      case 1
      with a Some show ?thesis
        by (auto simp: and_then_eq_Inr dest: set_text_tag split: if_splits)
    next
      case 2
      from Cons.IH [OF b 2] show ?thesis by auto
    qed
  qed
qed

lemma toXML_Inr:
  "toXML obj rd = Inr r \<Longrightarrow>
   \<exists>cs. toXML_level1 rd (children (xmlTemplate obj)) = Inr cs \<and>
        snd r = Element (tag (xmlTemplate obj)) (etext (xmlTemplate obj)) cs \<and>
        fst r = obj\<lparr>xmlTemplate := snd r\<rparr>"
  by (auto simp: toXML_def and_then_eq_Inr)

section \<open>The example run\<close>

lemma replicate_num: "replicate (numeral k) x = x # replicate (pred_numeral k) x"
  by (simp add: numeral_eq_Suc)

lemmas str_eval =
  replicate_num str_int_def fmt_0d_def digits.simps digit_char_def strftime_HMS_def
  strftime_Ymd_def

lemma chunks_ex: "chunks 128 [[0x0102, 0x0304 :: sample]] = [[[0x0102, 0x0304]]]"
  by (simp add: chunks.simps)

lemma gen_ex: "readWaveFileGen (sf_blocks ex_file 128) = [Yield (Arr2 [[0x0201], [0x0403]])]"
  by (simp add: sf_blocks_def ex_file_def chunks_ex byteswap16_def)

lemmas run_eval =
  run_def gen_ex ex_obj_def init_def at_time_def sent_out_def sent_fwd_def
  slept_def stopped_def stop_def stamp_def cycle_def toXML_def ex_template_def ex_doc_def
  time_field_def frame_millis_10 str_eval channel_key_def dictTypeConvert_def startswith_def
  frame_wrap_100 intervalDelta_10000 residual_sleep_def datetime_sub_def to_microseconds_def
  ymd2ord_def days_before_year_def days_before_month_def is_leap_def samples_per_frame_128
  sample_bytes_def b64char_def b64chars_def upt_rec

lemma run_ex:
  "sent_out (run ex_obj ex_env (sf_blocks ex_file 128)) = [((''127.0.0.1'', 48001), ex_doc)] \<and>
   sent_fwd (run ex_obj ex_env (sf_blocks ex_file 128)) = [((''127.0.0.1'', 48005), ex_doc)] \<and>
   slept (run ex_obj ex_env (sf_blocks ex_file 128)) = [7000] \<and>
   stopped (run ex_obj ex_env (sf_blocks ex_file 128))"
  by (simp add: run_eval ex_env_def)

lemma run_ex_delayed:
  "emitted (run ex_obj ex_env_delayed (sf_blocks ex_file 128)) = [ex_doc] \<and>
   slept (run ex_obj ex_env_delayed (sf_blocks ex_file 128)) = [0] \<and>
   stopped (run ex_obj ex_env_delayed (sf_blocks ex_file 128))"
  by (simp add: run_eval ex_env_delayed_def emitted_def)

section \<open>Lemmas on the cycle and the loop\<close>

lemma cycle_Inr:
  "cycle c st payload = Inr st2 \<Longrightarrow>
   \<exists>rd doc w.
     set_channels payload [0..<nat (channels (self st))] (resultDict st) = Inr rd \<and>
     toXML (self st) rd = Inr ((self st)\<lparr>xmlTemplate := doc\<rparr>, doc) \<and>
     frame_wrap (interval (self st)) = Inr w \<and>
     st2 = st\<lparr>self := (self st)\<lparr>xmlTemplate := doc\<rparr>,
              resultDict := rd,
              frame := (if frame st + 1 = w then 0 else frame st + 1),
              socketOut := socketOut st @ [((ip (self st), port (self st)), doc)],
              socketFwd := socketFwd st @ [((''127.0.0.1'', 48005), doc)],
              sleeps := sleeps st @ [residual_sleep (intervalDelta st) c]\<rparr>"
proof -
  assume a: "cycle c st payload = Inr st2"
  then obtain rd r w where
    rd: "set_channels payload [0..<nat (channels (self st))] (resultDict st) = Inr rd"
    and r: "toXML (self st) rd = Inr r"
    and w: "frame_wrap (interval (fst r)) = Inr w"
    and st2: "st2 = st\<lparr>self := fst r, resultDict := rd,
               frame := (if frame st + 1 = w then 0 else frame st + 1),
               socketOut := socketOut st @ [((ip (fst r), port (fst r)), snd r)],
               socketFwd := socketFwd st @ [((''127.0.0.1'', 48005), snd r)],
               sleeps := sleeps st @ [residual_sleep (intervalDelta st) c]\<rparr>"
    by (auto simp: cycle_def and_then_eq_Inr)
  from toXML_Inr [OF r] have fr: "fst r = (self st)\<lparr>xmlTemplate := snd r\<rparr>"
    by auto
  then have "r = ((self st)\<lparr>xmlTemplate := snd r\<rparr>, snd r)"
    by (metis prod.collapse)
  with rd r w st2 fr show ?thesis
    by (intro exI [of _ rd] exI [of _ "snd r"] exI [of _ w]) simp
qed

lemma stamp_simps [simp]:
  "self (stamp c st) = self st" "frame (stamp c st) = frame st"
  "intervalDelta (stamp c st) = intervalDelta st" "socketOut (stamp c st) = socketOut st"
  "socketFwd (stamp c st) = socketFwd st" "sleeps (stamp c st) = sleeps st"
  by (simp_all add: stamp_def)

lemma while_loop_sockets:
  "while_loop clk j st gen = Inr st' \<Longrightarrow>
   ip (self st') = ip (self st) \<and> port (self st') = port (self st) \<and>
   (\<exists>docs. socketOut st' = socketOut st @ map (\<lambda>d. ((ip (self st), port (self st)), d)) docs \<and>
           socketFwd st' = socketFwd st @ map (\<lambda>d. ((''127.0.0.1'', 48005), d)) docs)"
proof (induction clk j st gen arbitrary: st' rule: while_loop.induct)
  case (1 clk j st)
  then show ?case
    by (auto simp: stop_def split: if_splits intro: exI [of _ "[]"])
next
  case (2 clk j st e rest)
  then show ?case
    by (auto simp: stop_def split: if_splits intro: exI [of _ "[]"])
next
  case (3 clk j st payload rest)
  show ?case
  proof (cases "stopThread (self st)")
    case True
    with "3.prems" show ?thesis
      by (auto intro: exI [of _ "[]"])
  next
    case False
    with "3.prems" obtain st2 where
      c: "cycle (clk j) (stamp (clk j) st) payload = Inr st2"
      and l: "while_loop clk (Suc j) st2 rest = Inr st'"
      by (auto split: sum.splits)
    from cycle_Inr [OF c] obtain doc where
      s: "socketOut st2 = socketOut st @ [((ip (self st), port (self st)), doc)]"
         "socketFwd st2 = socketFwd st @ [((''127.0.0.1'', 48005), doc)]"
         "ip (self st2) = ip (self st)" "port (self st2) = port (self st)"
      by auto
    from "3.IH" [OF False c l] s obtain docs where
      "ip (self st') = ip (self st)" "port (self st') = port (self st)"
      "socketOut st' = socketOut st @ map (\<lambda>d. ((ip (self st), port (self st)), d)) (doc # docs)"
      "socketFwd st' = socketFwd st @ map (\<lambda>d. ((''127.0.0.1'', 48005), d)) (doc # docs)"
      by auto
    then show ?thesis by blast
  qed
qed

lemma while_loop_sleeps:
  "while_loop clk j st gen = Inr st' \<Longrightarrow>
   intervalDelta st' = intervalDelta st \<and>
   (\<exists>k. length (socketOut st') = length (socketOut st) + k \<and>
        sleeps st' =
          sleeps st @ map (\<lambda>i. residual_sleep (intervalDelta st) (clk (j + i))) [0..<k])"
proof (induction clk j st gen arbitrary: st' rule: while_loop.induct)
  case (1 clk j st)
  then show ?case
    by (auto simp: stop_def split: if_splits)
next
  case (2 clk j st e rest)
  then show ?case
    by (auto simp: stop_def split: if_splits)
next
  case (3 clk j st payload rest)
  show ?case
  proof (cases "stopThread (self st)")
    case True
    with "3.prems" show ?thesis by auto
  next
    case False
    with "3.prems" obtain st2 where
      c: "cycle (clk j) (stamp (clk j) st) payload = Inr st2"
      and l: "while_loop clk (Suc j) st2 rest = Inr st'"
      by (auto split: sum.splits)
    from cycle_Inr [OF c] have
      s: "length (socketOut st2) = length (socketOut st) + 1"
         "sleeps st2 = sleeps st @ [residual_sleep (intervalDelta st) (clk j)]"
         "intervalDelta st2 = intervalDelta st"
      by auto
    from "3.IH" [OF False c l] s obtain k where
      k: "intervalDelta st' = intervalDelta st"
         "length (socketOut st') = length (socketOut st) + Suc k"
         "sleeps st' = sleeps st @ residual_sleep (intervalDelta st) (clk j) #
            map (\<lambda>i. residual_sleep (intervalDelta st) (clk (Suc j + i))) [0..<k]"
      by auto
    have "map (\<lambda>i. residual_sleep (intervalDelta st) (clk (j + i))) [0..<Suc k] =
          residual_sleep (intervalDelta st) (clk j) #
            map (\<lambda>i. residual_sleep (intervalDelta st) (clk (Suc j + i))) [0..<k]"
      by (simp add: upt_conv_Cons map_Suc_upt [symmetric] del: upt_Suc)
    with k show ?thesis by metis
  qed
qed

section \<open>Transmission to both destinations (claim C9)\<close>

lemma run_Inr:
  "run obj env decoded = Some (Inr st') \<Longrightarrow>
   \<exists>k. while_loop (env_cycles env) 0
          \<lparr>self = obj\<lparr>stopThread := False\<rparr>,
           resultDict = [''Fs'' \<mapsto> PInt (Fs obj), ''n'' \<mapsto> PInt (n obj),
                         ''Channels'' \<mapsto> PInt (channels obj), ''bits'' \<mapsto> PInt (bits obj)],
           frame = 0,
           intervalDelta = timedelta_seconds (interval obj),
           socketOut = [], socketFwd = [], sleeps = [], holdoff_sleeps = k\<rparr>
          (readWaveFileGen decoded) = Inr st'"
  by (auto simp: run_def split: option.splits)

lemma observe_cases:
  obtains (returned) st' where "r = Some (Inr st')"
  | (nothing) "sent_out r = []" "sent_fwd r = []" "slept r = []" "\<not> stopped r"
proof (cases r)
  case None
  show ?thesis
    by (rule nothing) (simp_all add: None sent_out_def sent_fwd_def slept_def stopped_def)
next
  case (Some x)
  show ?thesis
  proof (cases x)
    case (Inl e)
    show ?thesis
      by (rule nothing) (simp_all add: Some Inl sent_out_def sent_fwd_def slept_def stopped_def)
  next
    case (Inr st')
    show ?thesis
      by (rule returned) (simp add: Some Inr)
  qed
qed

text \<open>
  Claim C9: in every cycle the bytes sent to the configured primary destination
  \<open>(ip, port)\<close> are the bytes sent to the fixed local relay \<open>(127.0.0.1, 48005)\<close>:
  one datagram per frame for each destination, with the same content.
\<close>

theorem C9_dual_destination:
  "map snd (sent_out (run obj env decoded)) = map snd (sent_fwd (run obj env decoded)) \<and>
   (\<forall>d \<in> set (sent_out (run obj env decoded)). fst d = (ip obj, port obj)) \<and>
   (\<forall>d \<in> set (sent_fwd (run obj env decoded)). fst d = (''127.0.0.1'', 48005))"
proof (cases "run obj env decoded" rule: observe_cases)
  case (returned st')
  from run_Inr [OF returned] obtain k docs where
    "socketOut st' = map (\<lambda>d. ((ip obj, port obj), d)) docs"
    "socketFwd st' = map (\<lambda>d. ((''127.0.0.1'', 48005), d)) docs"
    by (auto dest!: while_loop_sockets)
  with returned show ?thesis
    by (auto simp: sent_out_def sent_fwd_def comp_def)
next
  case nothing
  then show ?thesis by simp
qed

theorem C9_dual_destination_witness:
  "sent_out (run ex_obj ex_env (sf_blocks ex_file 128)) = [((''127.0.0.1'', 48001), ex_doc)] \<and>
   sent_fwd (run ex_obj ex_env (sf_blocks ex_file 128)) = [((''127.0.0.1'', 48005), ex_doc)] \<and>
   map snd (sent_out (run ex_obj ex_env (sf_blocks ex_file 128))) =
     map snd (sent_fwd (run ex_obj ex_env (sf_blocks ex_file 128)))"
  using C9_dual_destination [of ex_obj ex_env "sf_blocks ex_file 128"] run_ex
  by simp

section \<open>The residual sleep (claim C8)\<close>

text \<open>
  Claim C8: at the end of every cycle the residual is the interval minus the time elapsed
  since the start of the cycle; the engine sleeps that long when it is positive and not at
  all otherwise. The sleep is never called with a negative duration, and an overrun is
  absorbed without an error. Durations are in microseconds.
\<close>

theorem C8_residual_sleep:
  "slept (run obj env decoded) =
     map (\<lambda>j. max 0 (timedelta_seconds (interval obj) -
                      datetime_sub (clk_end (env_cycles env j)) (clk_now (env_cycles env j))))
       [0..<length (emitted (run obj env decoded))] \<and>
   (\<forall>s \<in> set (slept (run obj env decoded)). 0 \<le> s)"
proof (cases "run obj env decoded" rule: observe_cases)
  case (returned st')
  have r: "residual_sleep delta c = max 0 (delta - datetime_sub (clk_end c) (clk_now c))"
    for delta c
    by (simp add: residual_sleep_def max_def)
  from run_Inr [OF returned] obtain k where
    "length (socketOut st') = k"
    "sleeps st' = map (\<lambda>i. residual_sleep (timedelta_seconds (interval obj))
                              (env_cycles env i)) [0..<k]"
    by (auto dest!: while_loop_sleeps)
  with returned show ?thesis
    by (auto simp: slept_def emitted_def sent_out_def r)
next
  case nothing
  then show ?thesis by (simp add: emitted_def)
qed

theorem C8_residual_sleep_witness:
  "slept (run ex_obj ex_env_delayed (sf_blocks ex_file 128)) = [0] \<and>
   emitted (run ex_obj ex_env_delayed (sf_blocks ex_file 128)) = [ex_doc] \<and>
   stopped (run ex_obj ex_env_delayed (sf_blocks ex_file 128)) \<and>
   list_all (\<lambda>s. 0 \<le> s) (slept (run ex_obj ex_env_delayed (sf_blocks ex_file 128)))"
  using C8_residual_sleep [of ex_obj ex_env_delayed "sf_blocks ex_file 128"] run_ex_delayed
  by simp

section \<open>Runs that return\<close>

lemma hold_off_Some:
  "list_ex (\<lambda>p. dt_second p \<noteq> s) ps \<Longrightarrow> \<exists>m. hold_off s ps k = Some m"
  by (induction ps arbitrary: k) auto

lemma text_ok_set_text:
  "text_ok k v \<Longrightarrow> \<exists>c'. and_then (dictTypeConvert k v) (set_text c) = Inr c'"
  by (cases c) (auto simp: text_ok_def split: sum.splits pyval.splits)

lemma toXML_level2_total:
  "\<forall>k2 x. d k2 = Some x \<longrightarrow> text_ok k2 x \<Longrightarrow> \<exists>cs'. toXML_level2 (PDict d) cs = Inr cs'"
proof (induction cs)
  case Nil
  then show ?case by simp
next
  case (Cons c cs)
  then obtain rest' where r: "toXML_level2 (PDict d) cs = Inr rest'" by blast
  show ?case
  proof (cases "d (tag c)")
    case None
    with r show ?thesis by simp
  next
    case (Some x)
    with Cons.prems have "text_ok (tag c) x" by blast
    from text_ok_set_text [OF this, of c] obtain c' where
      "and_then (dictTypeConvert (tag c) x) (set_text c) = Inr c'" ..
    with Some r show ?thesis
      by (auto simp: and_then_eq_Inr)
  qed
qed

lemma toXML_level1_total: "wf_record rd \<Longrightarrow> \<exists>cs'. toXML_level1 rd cs = Inr cs'"
proof (induction cs)
  case Nil
  then show ?case by simp
next
  case (Cons c cs)
  then obtain rest' where r: "toXML_level1 rd cs = Inr rest'" by blast
  show ?case
  proof (cases "rd (tag c)")
    case None
    with r show ?thesis by simp
  next
    case (Some v)
    show ?thesis
    proof (cases "startswith (tag c) ''Channel_''")
      case True
      with Some Cons.prems obtain d where
        "v = PDict d" "\<forall>k2 x. d k2 = Some x \<longrightarrow> text_ok k2 x"
        unfolding wf_record_def by (metis (full_types))
      with toXML_level2_total [of d "children c"] Some True r show ?thesis
        by auto
    next
      case False
      with Some Cons.prems have "text_ok (tag c) v"
        unfolding wf_record_def by (metis (full_types))
      from text_ok_set_text [OF this, of c] Some False r show ?thesis
        by auto
    qed
  qed
qed

lemma toXML_total:
  "wf_record rd \<Longrightarrow> \<exists>doc. toXML obj rd = Inr (obj\<lparr>xmlTemplate := doc\<rparr>, doc)"
  using toXML_level1_total [of rd "children (xmlTemplate obj)"]
  by (auto simp: toXML_def)

lemma text_ok_str: "k \<noteq> ''Payload'' \<Longrightarrow> text_ok k (PStr s)"
  by (simp add: text_ok_def dictTypeConvert_def)

lemma text_ok_int:
  "k = ''Frame'' \<or> k = ''Fs'' \<or> k = ''n'' \<or> k = ''Channels'' \<or> k = ''bits'' \<Longrightarrow> text_ok k (PInt i)"
  by (auto simp: text_ok_def dictTypeConvert_def)

lemma text_ok_payload: "text_ok ''Payload'' (PArr a)"
  by (simp add: text_ok_def dictTypeConvert_def)

lemma wf_record_empty: "wf_record Map.empty"
  by (simp add: wf_record_def)

lemma wf_record_upd_text:
  "wf_record rd \<Longrightarrow> \<not> startswith k ''Channel_'' \<Longrightarrow> text_ok k v \<Longrightarrow> wf_record (rd(k \<mapsto> v))"
  unfolding wf_record_def by auto

lemma wf_record_upd_dict:
  "wf_record rd \<Longrightarrow> startswith k ''Channel_'' \<Longrightarrow> \<forall>k2 x. d k2 = Some x \<longrightarrow> text_ok k2 x \<Longrightarrow>
   wf_record (rd(k \<mapsto> PDict d))"
  unfolding wf_record_def by auto

lemma startswith_channel_key: "startswith (channel_key i) ''Channel_''"
  by (simp add: startswith_def channel_key_def)

lemma not_startswith_fields:
  "\<not> startswith ''Time'' ''Channel_''" "\<not> startswith ''Date'' ''Channel_''"
  "\<not> startswith ''Frame'' ''Channel_''" "\<not> startswith ''Fs'' ''Channel_''"
  "\<not> startswith ''n'' ''Channel_''" "\<not> startswith ''Channels'' ''Channel_''"
  "\<not> startswith ''bits'' ''Channel_''"
  by (simp_all add: startswith_def)

lemma wf_record_upd_channel:
  "wf_record rd \<Longrightarrow> wf_record (rd(channel_key i \<mapsto> PDict [''Payload'' \<mapsto> PArr a]))"
  by (rule wf_record_upd_dict) (auto simp: startswith_channel_key text_ok_payload)

lemma wf_record_stamp: "wf_record (resultDict st) \<Longrightarrow> wf_record (resultDict (stamp c st))"
  unfolding stamp_def
  by (simp del: fun_upd_apply)
     (intro wf_record_upd_text not_startswith_fields text_ok_str text_ok_int, simp_all)

lemma wf_record_initial:
  "wf_record [''Fs'' \<mapsto> PInt a, ''n'' \<mapsto> PInt b, ''Channels'' \<mapsto> PInt c, ''bits'' \<mapsto> PInt d]"
  by (intro wf_record_upd_text not_startswith_fields text_ok_int wf_record_empty) simp_all

lemma set_channels_total:
  "\<forall>i \<in> set is. \<exists>row. index_row payload i = Inr row \<Longrightarrow> wf_record rd \<Longrightarrow>
   \<exists>rd'. set_channels payload is rd = Inr rd' \<and> wf_record rd'"
proof (induction "is" arbitrary: rd)
  case Nil
  then show ?case by simp
next
  case (Cons i rest)
  then obtain row where row: "index_row payload i = Inr row" by auto
  let ?rd = "rd(channel_key i \<mapsto> PDict [''Payload'' \<mapsto> PArr (Arr1 row)])"
  from Cons.prems have wf: "wf_record ?rd"
    by (simp only: wf_record_upd_channel)
  from Cons.prems(1) have "\<forall>i \<in> set rest. \<exists>row. index_row payload i = Inr row"
    by simp
  from Cons.IH [OF this wf] obtain rd' where
    "set_channels payload rest ?rd = Inr rd'" "wf_record rd'" by blast
  with row show ?case
    by (simp del: fun_upd_apply)
qed

lemma set_channels_wf:
  "set_channels payload is rd = Inr rd' \<Longrightarrow> wf_record rd \<Longrightarrow> wf_record rd'"
proof (induction "is" arbitrary: rd)
  case Nil
  then show ?case by simp
next
  case (Cons i rest)
  from Cons.prems(1) obtain row where
    row: "index_row payload i = Inr row"
    and r: "set_channels payload rest
              (rd(channel_key i \<mapsto> PDict [''Payload'' \<mapsto> PArr (Arr1 row)])) = Inr rd'"
    by (auto simp: and_then_eq_Inr simp del: fun_upd_apply)
  from Cons.prems(2) have
    "wf_record (rd(channel_key i \<mapsto> PDict [''Payload'' \<mapsto> PArr (Arr1 row)]))"
    by (simp only: wf_record_upd_channel)
  from Cons.IH [OF r this] show ?case .
qed

text \<open>What the loop needs of a state to go on without an exception.\<close>

lemma cycle_total:
  assumes "\<forall>i < nat (channels (self st)). \<exists>row. index_row payload i = Inr row"
    and "wf_record (resultDict st)" and "frame_wrap (interval (self st)) = Inr w"
  shows "\<exists>st2. cycle c st payload = Inr st2"
proof -
  from assms(1) have "\<forall>i \<in> set [0..<nat (channels (self st))]. \<exists>row. index_row payload i = Inr row"
    by simp
  from set_channels_total [OF this assms(2)] obtain rd where
    rd: "set_channels payload [0..<nat (channels (self st))] (resultDict st) = Inr rd"
    and wf: "wf_record rd" by blast
  from toXML_total [OF wf, of "self st"] obtain doc where
    "toXML (self st) rd = Inr ((self st)\<lparr>xmlTemplate := doc\<rparr>, doc)" ..
  with rd assms(3) show ?thesis
    by (simp add: cycle_def)
qed

lemma cycle_keeps:
  "cycle c st payload = Inr st2 \<Longrightarrow>
   interval (self st2) = interval (self st) \<and> channels (self st2) = channels (self st) \<and>
   stopThread (self st2) = stopThread (self st) \<and>
   length (socketOut st2) = Suc (length (socketOut st)) \<and>
   (wf_record (resultDict st) \<longrightarrow> wf_record (resultDict st2))"
  by (drule cycle_Inr) (auto dest: set_channels_wf)

lemma while_loop_total:
  assumes "\<forall>p \<in> set ps. \<forall>i < nat (channels (self st)). \<exists>row. index_row p i = Inr row"
    and "wf_record (resultDict st)" and "frame_wrap (interval (self st)) = Inr w"
    and "\<not> stopThread (self st)"
  shows "\<exists>st'. while_loop clk j st (map Yield ps) = Inr st' \<and> stopThread (self st') \<and>
              length (socketOut st') = length (socketOut st) + length ps"
  using assms
proof (induction ps arbitrary: j st)
  case Nil
  then show ?case by (simp add: stop_def)
next
  case (Cons p ps)
  let ?st1 = "stamp (clk j) st"
  from Cons.prems have
    "\<forall>i < nat (channels (self ?st1)). \<exists>row. index_row p i = Inr row"
    "wf_record (resultDict ?st1)" "frame_wrap (interval (self ?st1)) = Inr w"
    by (simp_all add: wf_record_stamp)
  from cycle_total [OF this] obtain st2 where
    c: "cycle (clk j) ?st1 p = Inr st2" ..
  from cycle_keeps [OF c] Cons.prems have
    k: "interval (self st2) = interval (self st)" "channels (self st2) = channels (self st)"
       "\<not> stopThread (self st2)" "length (socketOut st2) = Suc (length (socketOut st))"
       "wf_record (resultDict st2)"
    by (simp_all add: wf_record_stamp)
  with Cons.prems have
    "\<forall>p \<in> set ps. \<forall>i < nat (channels (self st2)). \<exists>row. index_row p i = Inr row"
    "frame_wrap (interval (self st2)) = Inr w"
    by simp_all
  from Cons.IH [OF this(1) k(5) this(2) k(3), of "Suc j"] obtain st' where
    "while_loop clk (Suc j) st2 (map Yield ps) = Inr st'" "stopThread (self st')"
    "length (socketOut st') = length (socketOut st2) + length ps"
    by blast
  with c k Cons.prems(4) show ?case by simp
qed

lemma while_loop_Raise:
  "while_loop clk j st (gen @ Raise e # rest) = while_loop clk j st gen"
proof (induction clk j st gen rule: while_loop.induct)
  case (1 clk j st)
  then show ?case by simp
next
  case (2 clk j st e' rest')
  then show ?case by simp
next
  case (3 clk j st payload rest')
  then show ?case
    by (auto split: sum.splits)
qed

lemma readWaveFileGen_Raise:
  "while_loop clk j st (readWaveFileGen (pre @ Raise e # rest)) =
   while_loop clk j st (readWaveFileGen pre)"
proof (induction pre arbitrary: j st rule: readWaveFileGen.induct)
  case 1
  show ?case
    using while_loop_Raise [of clk j st "[]" e "[]"] by simp
next
  case (2 block rest')
  then show ?case
    by (auto split: sum.splits)
next
  case (3 e' rest')
  show ?case by simp
qed

lemma readWaveFileGen_Yield:
  "readWaveFileGen (map Yield bs) = map Yield (map (\<lambda>b. byteswap (arr_T b)) bs)"
  by (induction bs) simp_all

lemma block_fits_index_row:
  "block_fits chans b \<Longrightarrow> i < nat chans \<Longrightarrow> \<exists>row. index_row (byteswap (arr_T b)) i = Inr row"
  by (cases b) (auto simp: block_fits_def)

lemma run_total:
  assumes "holds_off env" and "list_all (block_fits (channels obj)) bs"
    and "frame_wrap (interval obj) = Inr w"
  shows "stopped (run obj env (map Yield bs)) \<and>
         length (emitted (run obj env (map Yield bs))) = length bs"
proof -
  from assms(1) obtain k where
    k: "hold_off (dt_second (env_startTime env)) (env_polls env) 0 = Some k"
    using hold_off_Some unfolding holds_off_def by blast
  let ?st = "\<lparr>self = obj\<lparr>stopThread := False\<rparr>,
           resultDict = [''Fs'' \<mapsto> PInt (Fs obj), ''n'' \<mapsto> PInt (n obj),
                         ''Channels'' \<mapsto> PInt (channels obj), ''bits'' \<mapsto> PInt (bits obj)],
           frame = 0,
           intervalDelta = timedelta_seconds (interval obj),
           socketOut = [], socketFwd = [], sleeps = [], holdoff_sleeps = k\<rparr>"
  let ?ps = "map (\<lambda>b. byteswap (arr_T b)) bs"
  from assms(2) have
    "\<forall>p \<in> set ?ps. \<forall>i < nat (channels (self ?st)). \<exists>row. index_row p i = Inr row"
    by (auto simp: list_all_iff dest: block_fits_index_row)
  moreover have "wf_record (resultDict ?st)"
    by (simp add: wf_record_initial)
  moreover from assms(3) have "frame_wrap (interval (self ?st)) = Inr w" by simp
  moreover have "\<not> stopThread (self ?st)" by simp
  ultimately obtain st' where
    "while_loop (env_cycles env) 0 ?st (map Yield ?ps) = Inr st'" "stopThread (self st')"
    "length (socketOut st') = length (socketOut ?st) + length ?ps"
    using while_loop_total [of ?ps ?st w "env_cycles env" 0] by blast
  with k show ?thesis
    by (simp add: run_def readWaveFileGen_Yield stopped_def emitted_def sent_out_def)
qed

lemma run_Raise: "run obj env (pre @ Raise e # rest) = run obj env pre"
  by (simp add: run_def readWaveFileGen_Raise cong: option.case_cong)

section \<open>A failing decoder (claim C10)\<close>

text \<open>
  Claim C10: any exception raised while the next block is pulled, a decode or I/O failure
  in the middle of the stream as well as the exhaustion of the stream, is caught in the
  cycle, sets the stop flag and lets \<open>run\<close> return normally, so that a decode error
  cannot be told from the end of the stream: the run is the run on the blocks delivered
  before the failure.
\<close>

theorem C10_decoder_failure:
  assumes "holds_off env" and "list_all (block_fits chans) bs"
  shows "run (init path chans addr prt template) env (map Yield bs @ Raise e # rest) =
           run (init path chans addr prt template) env (map Yield bs) \<and>
         stopped (run (init path chans addr prt template) env (map Yield bs @ Raise e # rest)) \<and>
         length (emitted (run (init path chans addr prt template) env
                            (map Yield bs @ Raise e # rest))) = length bs"
proof -
  let ?obj = "init path chans addr prt template"
  have "frame_wrap (interval ?obj) = Inr 100" "channels ?obj = chans"
    by (simp_all add: init_def frame_wrap_100)
  with run_total [of env ?obj bs 100] assms show ?thesis
    by (simp add: run_Raise)
qed

theorem C10_decoder_failure_witness:
  "run ex_obj ex_env ex_failing = run ex_obj ex_env (sf_blocks ex_file 128) \<and>
   stopped (run ex_obj ex_env ex_failing) \<and>
   emitted (run ex_obj ex_env ex_failing) = [ex_doc]"
proof -
  have h: "holds_off ex_env"
    by (simp add: holds_off_def ex_env_def at_time_def)
  have b: "list_all (block_fits 2) [Arr2 [[0x0102, 0x0304]]]"
    by (simp add: block_fits_def)
  have s: "sf_blocks ex_file 128 = map Yield [Arr2 [[0x0102, 0x0304]]]"
    by (simp add: sf_blocks_def ex_file_def chunks_ex)
  from C10_decoder_failure [OF h b, of "''example.flac''" "''127.0.0.1''" 48001 ex_template
      "LibraryError ''Error in read''" "[]"] run_ex s
  show ?thesis
    by (simp add: ex_failing_def ex_obj_def emitted_def)
qed

section \<open>The end of the stream (claim C5)\<close>

lemma chunks_length:
  "0 < k \<Longrightarrow> length (chunks k xs) = length xs div k + (if length xs mod k = 0 then 0 else 1)"
proof (induction k xs rule: chunks.induct)
  case (1 k xs)
  show ?case
  proof (cases "xs = []")
    case True
    then show ?thesis by (simp add: chunks.simps)
  next
    case False
    show ?thesis
    proof (cases "length xs \<le> k")
      case True
      with False "1.prems" have "chunks k xs = [take k xs]"
        by (simp add: chunks.simps [of k xs] chunks.simps [of k "[]"])
      moreover from True False "1.prems" have
        "length xs div k + (if length xs mod k = 0 then 0 else 1) = 1"
        by (cases "length xs = k") auto
      ultimately show ?thesis by simp
    next
      case gt: False
      with False "1.prems" "1.IH" have
        "length (chunks k (drop k xs)) =
           (length xs - k) div k + (if (length xs - k) mod k = 0 then 0 else 1)"
        by simp
      moreover from gt "1.prems" have "length xs div k = Suc ((length xs - k) div k)"
        by (simp add: le_div_geq)
      moreover from gt have "length xs mod k = (length xs - k) mod k"
        by (simp add: le_mod_geq)
      ultimately show ?thesis
        using False "1.prems" by (simp add: chunks.simps [of k xs])
    qed
  qed
qed

lemma chunks_member:
  "c \<in> set (chunks k xs) \<Longrightarrow> c \<noteq> [] \<and> set c \<subseteq> set xs"
proof (induction k xs rule: chunks.induct)
  case (1 k xs)
  show ?case
  proof (cases "k = 0 \<or> xs = []")
    case True
    with "1.prems" show ?thesis by (simp add: chunks.simps)
  next
    case False
    with "1.prems" consider "c = take k xs" | "c \<in> set (chunks k (drop k xs))"
      by (auto simp: chunks.simps [of k xs])
    then show ?thesis
    proof cases
      case 1
      with False show ?thesis by (auto dest: in_set_takeD)
    next
      case 2
      with "1.IH" False show ?thesis by (auto dest: in_set_dropD)
    qed
  qed
qed

lemma length_transpose_rect:
  "c \<noteq> [] \<Longrightarrow> \<forall>r \<in> set c. length r = m \<Longrightarrow> length (transpose c) = m"
proof (induction c)
  case Nil
  then show ?case by simp
next
  case (Cons a c)
  show ?case
  proof (cases "c = []")
    case True
    with Cons.prems show ?thesis by (simp add: length_transpose)
  next
    case False
    with Cons have "length (transpose c) = m" by simp
    with Cons.prems show ?thesis by (simp add: length_transpose)
  qed
qed

lemma sf_blocks_fit:
  assumes "wf_file f" and "chans \<le> int (sf_channels f)" and "2 \<le> sf_channels f"
  shows "\<exists>bs. sf_blocks f k = map Yield bs \<and> list_all (block_fits chans) bs \<and>
              length bs = length (chunks k (sf_frames f))"
proof -
  from assms(1,3) have m: "sf_channels f \<noteq> 1" "\<forall>r \<in> set (sf_frames f). length r = sf_channels f"
    by (auto simp: wf_file_def list_all_iff)
  let ?bs = "map Arr2 (chunks k (sf_frames f))"
  have "block_fits chans (Arr2 c)" if "c \<in> set (chunks k (sf_frames f))" for c
  proof -
    from chunks_member [OF that] m have "c \<noteq> []" "\<forall>r \<in> set c. length r = sf_channels f"
      by auto
    then have "length (transpose c) = sf_channels f"
      by (rule length_transpose_rect)
    with assms(2) show ?thesis
      by (simp add: block_fits_def)
  qed
  then have "list_all (block_fits chans) ?bs"
    by (auto simp: list_all_iff)
  moreover from m have "sf_blocks f k = map Yield ?bs"
    by (simp add: sf_blocks_def)
  ultimately show ?thesis
    by (intro exI [of _ ?bs]) simp
qed

text \<open>
  Claim C5, as stated: a stream of \<open>k\<close> full blocks of \<open>n\<close> samples and a last block of
  fewer samples gives exactly \<open>k\<close> frames, the partial block being neither padded nor
  emitted. This does not hold: the file of one frame has no full block, and its partial
  block of one sample is emitted as a frame, unpadded, with \<open>n\<close> still given as 128.
\<close>

theorem C5_partial_block_counterexample:
  "length (sf_frames ex_file) div 128 = 0 \<and>
   emitted (run ex_obj ex_env (sf_blocks ex_file 128)) = [ex_doc] \<and>
   payloads ''Channel_0'' ex_doc = [Some ''AQI=''] \<and>
   field ''n'' ex_doc = [Some ''128'']"
  using run_ex
  by (simp add: emitted_def ex_file_def ex_doc_def payloads_def field_def)

text \<open>
  A mono file is outside the amended claim: its blocks are one-dimensional, and with a
  channel configured \<open>payload[i, :]\<close> raises \<open>IndexError\<close> in the first cycle, outside
  the \<open>try\<close>, so that \<open>run\<close> raises and emits nothing.
\<close>

lemma mono_file_raises:
  assumes "sf_channels f = 1" and "sf_frames f \<noteq> []" and "0 < chans" and "holds_off env"
  shows "run (init path chans addr prt template) env (sf_blocks f 128) = Some (Inl IndexError)"
proof -
  from assms(4) obtain k where
    k: "hold_off (dt_second (env_startTime env)) (env_polls env) 0 = Some k"
    using hold_off_Some unfolding holds_off_def by blast
  from assms(2) have "chunks 128 (sf_frames f) =
      take 128 (sf_frames f) # chunks 128 (drop 128 (sf_frames f))"
    by (subst chunks.simps) simp
  with assms(1) obtain xs rest where
    g: "readWaveFileGen (sf_blocks f 128) = Yield (Arr1 xs) # rest"
    by (simp add: sf_blocks_def)
  from assms(3) have "[0..<nat chans] = 0 # [1..<nat chans]"
    by (simp add: upt_rec)
  then have "set_channels (Arr1 xs) [0..<nat chans] rd = Inl IndexError" for rd
    by simp
  then have "cycle c st (Arr1 xs) = Inl IndexError" if "channels (self st) = chans" for c st
    using that by (simp add: cycle_def)
  with k g show ?thesis
    by (simp add: run_def init_def)
qed

text \<open>
  Claim C5, amended: for a file with at least two channels, and at least as many as are
  configured, whose frames all have one sample for each channel, and a clock that leaves
  the second in which \<open>run\<close> was called: one frame is emitted for every block that the
  decoder delivers, the last, partial block included, which is not padded: \<open>k\<close> frames
  for \<open>k\<close> full blocks and one more when samples are left over. Then the stop flag is
  set and \<open>run\<close> returns normally.
\<close>

theorem C5_end_of_stream:
  assumes "2 \<le> sf_channels f" and "chans \<le> int (sf_channels f)" and "wf_file f"
    and "holds_off env"
  shows "stopped (run (init path chans addr prt template) env (sf_blocks f 128)) \<and>
         length (emitted (run (init path chans addr prt template) env (sf_blocks f 128))) =
           length (sf_frames f) div 128 + (if length (sf_frames f) mod 128 = 0 then 0 else 1)"
proof -
  let ?obj = "init path chans addr prt template"
  from sf_blocks_fit [OF assms(3,2,1), of 128] obtain bs where
    bs: "sf_blocks f 128 = map Yield bs" "list_all (block_fits chans) bs"
        "length bs = length (chunks 128 (sf_frames f))"
    by blast
  have "frame_wrap (interval ?obj) = Inr 100" "channels ?obj = chans"
    by (simp_all add: init_def frame_wrap_100)
  with run_total [of env ?obj bs 100] assms(4) bs show ?thesis
    by (simp add: chunks_length)
qed

theorem C5_end_of_stream_witness:
  "stopped (run ex_obj ex_env (sf_blocks ex_file 128)) \<and>
   length (emitted (run ex_obj ex_env (sf_blocks ex_file 128))) = 1"
proof -
  have h: "holds_off ex_env"
    by (simp add: holds_off_def ex_env_def at_time_def)
  have w: "2 \<le> sf_channels ex_file" "2 \<le> int (sf_channels ex_file)" "wf_file ex_file"
    by (simp_all add: wf_file_def ex_file_def)
  from C5_end_of_stream [OF w h, of "''example.flac''" "''127.0.0.1''" 48001 ex_template]
  show ?thesis
    by (simp add: ex_obj_def ex_file_def)
qed

section \<open>The encoder and the template (claim C2)\<close>

lemmas toXML_eval =
  toXML_def toXML_doc_def ex_obj_def init_def ex_template_def ex_doc_def ex_record_def
  ex_record_fmt_def dictTypeConvert_def startswith_def str_eval sample_bytes_def b64char_def
  b64chars_def field_def

lemma toXML_ex: "toXML ex_obj ex_record = Inr (ex_obj\<lparr>xmlTemplate := ex_doc\<rparr>, ex_doc)"
  by (simp add: toXML_eval)

text \<open>
  Claim C2, as stated: the encoder is pure, \<open>toXML\<close> leaves the template unchanged, and
  no state of one cycle's document reaches the next. This does not hold: \<open>toXML\<close> works
  on the tree of the object, which is the emitted document afterwards; and a field that
  one record lacks is removed for good, so that a later record that has it is encoded
  without it.
\<close>

theorem C2_template_mutated_counterexample:
  "toXML ex_obj ex_record = Inr (ex_obj\<lparr>xmlTemplate := ex_doc\<rparr>, ex_doc) \<and>
   xmlTemplate ex_obj \<noteq> ex_doc \<and>
   map_option (field ''Format'') (toXML_doc ex_obj ex_record_fmt) = Some [Some ''Samples''] \<and>
   map_option (field ''Format'') (toXML_doc (ex_obj\<lparr>xmlTemplate := ex_doc\<rparr>) ex_record_fmt) =
     Some []"
  by (simp add: toXML_eval)

text \<open>
  Claim C2, amended: \<open>toXML\<close> changes nothing of the object but its template, which it
  rewrites in place into the document it returns. Encoding the same record again
  returns the same document and changes nothing more.
\<close>

theorem C2_encode_in_place:
  assumes "toXML obj rd = Inr (obj', doc)"
  shows "obj' = obj\<lparr>xmlTemplate := doc\<rparr> \<and> toXML obj' rd = Inr (obj', doc)"
proof -
  from toXML_Inr [OF assms] obtain cs where
    cs: "toXML_level1 rd (children (xmlTemplate obj)) = Inr cs"
    and doc: "doc = Element (tag (xmlTemplate obj)) (etext (xmlTemplate obj)) cs"
    and obj': "obj' = obj\<lparr>xmlTemplate := doc\<rparr>"
    by auto
  from cs have "toXML_level1 rd cs = Inr cs"
    by (rule toXML_level1_again)
  with doc obj' show ?thesis
    by (simp add: toXML_def)
qed

theorem C2_encode_in_place_witness:
  "toXML ex_obj ex_record = Inr (ex_obj\<lparr>xmlTemplate := ex_doc\<rparr>, ex_doc) \<and>
   toXML (ex_obj\<lparr>xmlTemplate := ex_doc\<rparr>) ex_record = Inr (ex_obj\<lparr>xmlTemplate := ex_doc\<rparr>, ex_doc)"
  using C2_encode_in_place [OF toXML_ex] toXML_ex
  by simp

section \<open>Fields missing from the record (claim C6)\<close>

lemma wf_record_ex: "wf_record ex_record"
  unfolding ex_record_def
  by (intro wf_record_upd_dict wf_record_upd_text wf_record_empty)
     (auto simp: startswith_def text_ok_payload text_ok_int text_ok_str)

text \<open>
  Claim C6, as stated: a field that the template declares and the record lacks is absent
  from the document, not emitted as an empty node; a field that cannot be resolved is
  skipped with a diagnostic. This does not hold below a channel: \<open>Name\<close> is declared
  under \<open>Channel_0\<close>, is no key of the record nor of the dict of the channel, and stays
  in the document as an empty node.
\<close>

theorem C6_subfield_kept_counterexample:
  "toXML ex_obj ex_record = Inr (ex_obj\<lparr>xmlTemplate := ex_doc\<rparr>, ex_doc) \<and>
   ex_record ''Name'' = None \<and>
   ex_record ''Channel_0'' = Some (PDict [''Payload'' \<mapsto> PArr (Arr1 [0x0201])]) \<and>
   ''Name'' \<in> set (tags_below ex_doc) \<and>
   ''Channel_5'' \<notin> set (tags_below ex_doc)"
  using toXML_ex
  by (simp add: ex_record_def ex_doc_def)

text \<open>
  Claim C6, amended: a top-level field that the template declares and the record lacks
  is absent from the document, and the other top-level fields stay, in the order of the
  template; below a field that stays, every declared sub-field stays, whether the record
  has a value for it or not. No exception is raised for a record of the kind that
  \<open>run\<close> builds, and nothing is skipped with a diagnostic.
\<close>

theorem C6_schema_omission:
  "(wf_record rd \<longrightarrow> (\<exists>doc. toXML obj rd = Inr (obj\<lparr>xmlTemplate := doc\<rparr>, doc))) \<and>
   (toXML obj rd = Inr (obj', doc) \<longrightarrow>
      map tag (children doc) = filter (\<lambda>t. rd t \<noteq> None) (map tag (children (xmlTemplate obj))) \<and>
      (\<forall>c' \<in> set (children doc). \<exists>c \<in> set (children (xmlTemplate obj)).
          tag c' = tag c \<and> map tag (children c') = map tag (children c)))"
proof (intro conjI impI)
  assume "wf_record rd"
  then show "\<exists>doc. toXML obj rd = Inr (obj\<lparr>xmlTemplate := doc\<rparr>, doc)"
    by (rule toXML_total)
next
  assume a: "toXML obj rd = Inr (obj', doc)"
  from toXML_Inr [OF a] obtain cs where
    cs: "toXML_level1 rd (children (xmlTemplate obj)) = Inr cs" and doc: "children doc = cs"
    by auto
  from cs doc show "map tag (children doc) =
      filter (\<lambda>t. rd t \<noteq> None) (map tag (children (xmlTemplate obj)))"
    by (simp add: toXML_level1_tags)
  show "\<forall>c' \<in> set (children doc). \<exists>c \<in> set (children (xmlTemplate obj)).
          tag c' = tag c \<and> map tag (children c') = map tag (children c)"
  proof
    fix c' assume "c' \<in> set (children doc)"
    with doc have "c' \<in> set cs" by simp
    from toXML_level1_member [OF cs this] obtain c v where
      c: "c \<in> set (children (xmlTemplate obj))" "tag c' = tag c"
      and d: "if startswith (tag c) ''Channel_''
              then \<exists>cs2. toXML_level2 v (children c) = Inr cs2 \<and> c' = Element (tag c) (etext c) cs2
              else and_then (dictTypeConvert (tag c) v) (set_text c) = Inr c'"
      by blast
    have "map tag (children c') = map tag (children c)"
    proof (cases "startswith (tag c) ''Channel_''")
      case True
      with d show ?thesis by (auto dest: toXML_level2_tags)
    next
      case False
      with d show ?thesis by (auto simp: and_then_eq_Inr dest: set_text_tag)
    qed
    with c show "\<exists>c \<in> set (children (xmlTemplate obj)).
        tag c' = tag c \<and> map tag (children c') = map tag (children c)"
      by blast
  qed
qed

theorem C6_schema_omission_witness:
  "wf_record ex_record \<and>
   toXML ex_obj ex_record = Inr (ex_obj\<lparr>xmlTemplate := ex_doc\<rparr>, ex_doc) \<and>
   map tag (children ex_doc) =
     filter (\<lambda>t. ex_record t \<noteq> None) (map tag (children (xmlTemplate ex_obj))) \<and>
   map tag (children ex_doc) =
     [''Date'', ''Time'', ''Frame'', ''Fs'', ''n'', ''bits'', ''Channels'', ''Channel_0'',
      ''Channel_1'']"
proof -
  note kept = C6_schema_omission [of ex_record ex_obj "ex_obj\<lparr>xmlTemplate := ex_doc\<rparr>" ex_doc,
      THEN conjunct2, THEN mp, OF toXML_ex, THEN conjunct1]
  show ?thesis
    by (intro conjI wf_record_ex toXML_ex kept) (simp add: ex_doc_def)
qed

section \<open>Sample bytes and Base64\<close>

lemma sample_bytes_byteswap16: "sample_bytes (byteswap16 w) = be_bytes w"
proof -
  have "(ucast (push_bit 8 w OR drop_bit 8 w) :: byte) = ucast (drop_bit 8 w)"
    by (rule bit_word_eqI) (auto simp: bit_simps)
  moreover have "(ucast (drop_bit 8 (push_bit 8 w OR drop_bit 8 w)) :: byte) = ucast w"
    by (rule bit_word_eqI) (auto simp: bit_simps)
  ultimately show ?thesis
    by (simp add: sample_bytes_def be_bytes_def byteswap16_def)
qed

lemma tobytes_byteswap:
  "tobytes (Arr1 (map byteswap16 xs)) = concat (map be_bytes xs)"
  by (simp add: comp_def sample_bytes_byteswap16)

lemma length_be_bytes: "length (concat (map be_bytes xs)) = 2 * length xs"
  by (induction xs) (simp_all add: be_bytes_def)

lemma index_of_nth: "distinct xs \<Longrightarrow> i < length xs \<Longrightarrow> index_of (xs ! i) xs = i"
proof (induction xs arbitrary: i)
  case Nil
  then show ?case by simp
next
  case (Cons x xs)
  then show ?case
    by (cases i) auto
qed

lemma b64chars_distinct: "distinct b64chars" and b64chars_length: "length b64chars = 64"
  by (simp_all add: b64chars_def)

lemma b64val_b64char: "v < 64 \<Longrightarrow> b64val (b64char v) = v"
  by (simp add: b64val_def b64char_def index_of_nth b64chars_distinct b64chars_length)

lemma b64char_not_pad: "v < 64 \<Longrightarrow> b64char v \<noteq> CHR ''=''"
proof -
  assume "v < 64"
  then have "b64char v \<in> set b64chars"
    by (simp add: b64char_def b64chars_length)
  moreover have "CHR ''='' \<notin> set b64chars"
    by (simp add: b64chars_def)
  ultimately show ?thesis by auto
qed

lemma b64_sextets:
  fixes x y z :: nat
  assumes "x < 256" "y < 256" "z < 256"
  shows "x div 4 < 64" "x mod 4 * 16 < 64" "x mod 4 * 16 + y div 16 < 64"
    "y mod 16 * 4 < 64" "y mod 16 * 4 + z div 64 < 64" "z mod 64 < 64"
  using assms by simp_all

lemma div_16_less: "(y::nat) < 256 \<Longrightarrow> y div 16 < 16"
  and div_64_less: "(z::nat) < 256 \<Longrightarrow> z div 64 < 4"
  by simp_all

lemma b64_bytes:
  fixes x y z :: nat
  assumes "x < 256" "y < 256" "z < 256"
  shows "x div 4 * 4 + x mod 4 * 16 div 16 = x"
    "x div 4 * 4 + (x mod 4 * 16 + y div 16) div 16 = x"
    "(x mod 4 * 16 + y div 16) mod 16 * 16 + y mod 16 * 4 div 4 = y"
    "(x mod 4 * 16 + y div 16) mod 16 * 16 + (y mod 16 * 4 + z div 64) div 4 = y"
    "(y mod 16 * 4 + z div 64) mod 4 * 64 + z mod 64 = z"
  using div_16_less [OF assms(2)] div_64_less [OF assms(3)] by simp_all

lemma unat_byte: "unat (a :: byte) < 256"
  using unsigned_less [of a, where ?'a = nat] by simp

lemma b64decode_quad:
  "v1 < 64 \<Longrightarrow> v2 < 64 \<Longrightarrow> v3 < 64 \<Longrightarrow> v4 < 64 \<Longrightarrow>
   b64decode (b64char v1 # b64char v2 # b64char v3 # b64char v4 # rest) =
     of_nat (v1 * 4 + v2 div 16) # of_nat (v2 mod 16 * 16 + v3 div 4) #
     of_nat (v3 mod 4 * 64 + v4) # b64decode rest"
  by (simp add: b64val_b64char b64char_not_pad)

lemma b64decode_pad1:
  "v1 < 64 \<Longrightarrow> v2 < 64 \<Longrightarrow> v3 < 64 \<Longrightarrow>
   b64decode [b64char v1, b64char v2, b64char v3, CHR ''=''] =
     [of_nat (v1 * 4 + v2 div 16), of_nat (v2 mod 16 * 16 + v3 div 4)]"
  by (simp add: b64val_b64char b64char_not_pad)

lemma b64decode_pad2:
  "v1 < 64 \<Longrightarrow> v2 < 64 \<Longrightarrow>
   b64decode [b64char v1, b64char v2, CHR ''='', CHR ''=''] = [of_nat (v1 * 4 + v2 div 16)]"
  by (simp add: b64val_b64char)

lemma b64decode_b64encode: "b64decode (b64encode bs) = bs"
proof (induction bs rule: b64encode.induct)
  case 1
  show ?case by simp
next
  case (2 a)
  have a: "unat a < 256" by (rule unat_byte)
  have "b64decode (b64encode [a]) = [of_nat (unat a div 4 * 4 + unat a mod 4 * 16 div 16)]"
    by (simp only: b64encode.simps b64decode_pad2 [OF b64_sextets(1,2) [OF a a a]])
  also have "\<dots> = [a]"
    by (simp only: b64_bytes(1) [OF a a a] of_nat_unat ucast_id)
  finally show ?case .
next
  case (3 a b)
  have a: "unat a < 256" by (rule unat_byte)
  have b: "unat b < 256" by (rule unat_byte)
  have "b64decode (b64encode [a, b]) =
      [of_nat (unat a div 4 * 4 + (unat a mod 4 * 16 + unat b div 16) div 16),
       of_nat ((unat a mod 4 * 16 + unat b div 16) mod 16 * 16 + unat b mod 16 * 4 div 4)]"
    by (simp only: b64encode.simps b64decode_pad1 [OF b64_sextets(1,3,4) [OF a b b]])
  also have "\<dots> = [a, b]"
    by (simp only: b64_bytes(2,3) [OF a b b] of_nat_unat ucast_id)
  finally show ?case .
next
  case (4 a b c rest)
  have a: "unat a < 256" by (rule unat_byte)
  have b: "unat b < 256" by (rule unat_byte)
  have c: "unat c < 256" by (rule unat_byte)
  have "b64decode (b64encode (a # b # c # rest)) =
      of_nat (unat a div 4 * 4 + (unat a mod 4 * 16 + unat b div 16) div 16) #
      of_nat ((unat a mod 4 * 16 + unat b div 16) mod 16 * 16 +
              (unat b mod 16 * 4 + unat c div 64) div 4) #
      of_nat ((unat b mod 16 * 4 + unat c div 64) mod 4 * 64 + unat c mod 64) #
      b64decode (b64encode rest)"
    by (simp only: b64encode.simps append_Cons append_Nil
        b64decode_quad [OF b64_sextets(1,3,5,6) [OF a b c]])
  also have "\<dots> = a # b # c # rest"
    by (simp only: b64_bytes(2,4,5) [OF a b c] of_nat_unat ucast_id "4.IH")
  finally show ?case .
qed

section \<open>The documents of a run\<close>

lemma digit_char_inj: "a < 10 \<Longrightarrow> b < 10 \<Longrightarrow> digit_char a = digit_char b \<Longrightarrow> a = b"
proof -
  assume a: "a < 10" "b < 10" "digit_char a = digit_char b"
  have "distinct ''0123456789''" by simp
  with a show ?thesis
    by (simp add: digit_char_def nth_eq_iff_index_eq)
qed

lemma digits_nonempty: "digits a \<noteq> []"
  by (subst digits.simps) simp

lemma digits_inj: "digits a = digits b \<Longrightarrow> a = b"
proof (induction a arbitrary: b rule: digits.induct)
  case (1 a)
  show ?case
  proof (cases "a < 10")
    case True
    show ?thesis
    proof (cases "b < 10")
      case b: True
      with True "1.prems" show ?thesis
        by (simp add: digits.simps [of a] digits.simps [of b] digit_char_inj)
    next
      case b: False
      with True "1.prems" digits_nonempty [of "b div 10"] show ?thesis
        by (simp add: digits.simps [of a] digits.simps [of b])
    qed
  next
    case False
    show ?thesis
    proof (cases "b < 10")
      case b: True
      with False "1.prems" digits_nonempty [of "a div 10"] show ?thesis
        by (simp add: digits.simps [of a] digits.simps [of b])
    next
      case b: False
      with False "1.prems" have
        "digits (a div 10) = digits (b div 10)" "digit_char (a mod 10) = digit_char (b mod 10)"
        by (simp_all add: digits.simps [of a] digits.simps [of b])
      with "1.IH" False have "a div 10 = b div 10" "a mod 10 = b mod 10"
        by (auto intro: digit_char_inj)
      then show ?thesis
        by (metis div_mult_mod_eq)
    qed
  qed
qed

lemma channel_key_inj: "channel_key i = channel_key j \<Longrightarrow> i = j"
  by (simp add: channel_key_def str_int_def digits_inj)

lemma channel_key_not_scalar: "k \<in> scalar_keys \<Longrightarrow> k \<noteq> channel_key i"
  using startswith_channel_key [of i]
  by (auto simp: scalar_keys_def startswith_def)

lemma scalar_not_channel: "k \<in> scalar_keys \<Longrightarrow> \<not> startswith k ''Channel_''"
  by (auto simp: scalar_keys_def startswith_def)

lemma set_channels_other:
  "set_channels payload is rd0 = Inr rd \<Longrightarrow> \<forall>i \<in> set is. k \<noteq> channel_key i \<Longrightarrow> rd k = rd0 k"
proof (induction "is" arbitrary: rd0)
  case Nil
  then show ?case by simp
next
  case (Cons i rest)
  from Cons.prems(1) obtain row where
    r: "set_channels payload rest
          (rd0(channel_key i \<mapsto> PDict [''Payload'' \<mapsto> PArr (Arr1 row)])) = Inr rd"
    by (auto simp: and_then_eq_Inr simp del: fun_upd_apply)
  from Cons.prems(2) have "\<forall>i \<in> set rest. k \<noteq> channel_key i" "k \<noteq> channel_key i"
    by simp_all
  with Cons.IH [OF r] show ?case by simp
qed

lemma set_channels_key:
  "set_channels payload is rd0 = Inr rd \<Longrightarrow> distinct is \<Longrightarrow> i \<in> set is \<Longrightarrow>
   \<exists>row. index_row payload i = Inr row \<and>
         rd (channel_key i) = Some (PDict [''Payload'' \<mapsto> PArr (Arr1 row)])"
proof (induction "is" arbitrary: rd0)
  case Nil
  then show ?case by simp
next
  case (Cons i' rest)
  from Cons.prems(1) obtain row where
    row: "index_row payload i' = Inr row"
    and r: "set_channels payload rest
          (rd0(channel_key i' \<mapsto> PDict [''Payload'' \<mapsto> PArr (Arr1 row)])) = Inr rd"
    by (auto simp: and_then_eq_Inr simp del: fun_upd_apply)
  show ?case
  proof (cases "i = i'")
    case True
    from Cons.prems(2) have "\<forall>m \<in> set rest. channel_key i' \<noteq> channel_key m"
      by (auto dest: channel_key_inj)
    from set_channels_other [OF r this] have
      "rd (channel_key i') = Some (PDict [''Payload'' \<mapsto> PArr (Arr1 row)])"
      by (simp only: fun_upd_same)
    with True row show ?thesis by blast
  next
    case False
    with Cons.prems have "distinct rest" "i \<in> set rest" by simp_all
    from Cons.IH [OF r this] show ?thesis .
  qed
qed

lemma toXML_level1_field:
  assumes "toXML_level1 rd cs = Inr cs'" and "rd k = Some v" and "\<not> startswith k ''Channel_''"
    and "dictTypeConvert k v = Inr (PStr s)"
  shows "map etext (filter (\<lambda>c. tag c = k) cs') =
         replicate (length (filter (\<lambda>c. tag c = k) cs)) (Some s)"
  using assms(1)
proof (induction cs arbitrary: cs')
  case Nil
  then show ?case by simp
next
  case (Cons c cs)
  show ?case
  proof (cases "rd (tag c)")
    case None
    with assms(2) have "tag c \<noteq> k" by auto
    with None Cons show ?thesis by simp
  next
    case (Some v')
    with Cons.prems obtain c1 rest' where
      a: "(if startswith (tag c) ''Channel_''
           then and_then (toXML_level2 v' (children c)) (\<lambda>cs. Inr (Element (tag c) (etext c) cs))
           else and_then (dictTypeConvert (tag c) v') (set_text c)) = Inr c1"
      and b: "toXML_level1 rd cs = Inr rest'" and c: "cs' = c1 # rest'"
      by (auto simp: and_then_eq_Inr)
    from a have t: "tag c1 = tag c"
      by (auto simp: and_then_eq_Inr dest: set_text_tag split: if_splits)
    show ?thesis
    proof (cases "tag c = k")
      case True
      with a Some assms(2,3,4) have "set_text c (PStr s) = Inr c1" by simp
      then have "etext c1 = Some s" by (cases c) auto
      with True t c Cons.IH [OF b] show ?thesis by simp
    next
      case False
      with t c Cons.IH [OF b] show ?thesis by simp
    qed
  qed
qed

lemma toXML_level1_count:
  "toXML_level1 rd cs = Inr cs' \<Longrightarrow> rd k \<noteq> None \<Longrightarrow>
   length (filter (\<lambda>c. tag c = k) cs') = length (filter (\<lambda>c. tag c = k) cs)"
proof -
  assume a: "toXML_level1 rd cs = Inr cs'" and k: "rd k \<noteq> None"
  have e: "filter (\<lambda>t. t = k) (filter (\<lambda>t. rd t \<noteq> None) ts) = filter (\<lambda>t. t = k) ts" for ts
    using k by (induction ts) auto
  have f: "length (filter (\<lambda>c. tag c = k) xs) = length (filter (\<lambda>t. t = k) (map tag xs))" for xs
    by (induction xs) auto
  show ?thesis
    by (simp only: f toXML_level1_tags [OF a] e)
qed

lemma toXML_level1_payloads:
  assumes "toXML_level1 rd cs = Inr cs'" and "rd k = Some (PDict [''Payload'' \<mapsto> PArr a])"
    and "startswith k ''Channel_''" and "c' \<in> set cs'" and "tag c' = k"
    and "p \<in> set (children c')" and "tag p = ''Payload''"
  shows "etext p = Some (b64encode (tobytes a))"
proof -
  from toXML_level1_member [OF assms(1,4)] assms(2,3,5) obtain c cs2 where
    "toXML_level2 (PDict [''Payload'' \<mapsto> PArr a]) (children c) = Inr cs2"
    "c' = Element (tag c) (etext c) cs2"
    by (auto split: if_splits)
  with assms(6) have "toXML_level2 (PDict [''Payload'' \<mapsto> PArr a]) (children c) = Inr cs2"
    "p \<in> set cs2" by simp_all
  from toXML_level2_member [OF this] assms(7) obtain c0 where
    "and_then (dictTypeConvert ''Payload'' (PArr a)) (set_text c0) = Inr p"
    by (auto split: option.splits if_splits)
  then have "set_text c0 (PBytes (b64encode (tobytes a))) = Inr p"
    by (simp add: dictTypeConvert_def)
  then show ?thesis by (cases c0) auto
qed

lemma frame_next: "(if int (j mod 100) + 1 = 100 then 0 else int (j mod 100) + 1) = int (Suc j mod 100)"
  by (simp add: mod_Suc)

lemma cycle_step:
  assumes c: "cycle (clk j) (stamp (clk j) st) payload = Inr st2" and inv: "loop_inv obj j st"
  shows "loop_inv obj (Suc j) st2 \<and>
         (\<exists>doc rd. socketOut st2 = socketOut st @ [((ip (self st), port (self st)), doc)] \<and>
            cycle_record obj (clk j) j payload rd \<and>
            toXML_level1 rd (children (xmlTemplate (self st))) = Inr (children doc) \<and>
            (\<forall>k \<in> scalar_keys. rd k \<noteq> None))"
proof -
  let ?st1 = "stamp (clk j) st"
  from cycle_Inr [OF c] obtain rd doc w where
    sc: "set_channels payload [0..<nat (channels (self st))] (resultDict ?st1) = Inr rd"
    and tx: "toXML (self st) rd = Inr ((self st)\<lparr>xmlTemplate := doc\<rparr>, doc)"
    and w: "frame_wrap (interval (self st)) = Inr w"
    and st2: "st2 = ?st1\<lparr>self := (self st)\<lparr>xmlTemplate := doc\<rparr>, resultDict := rd,
                frame := (if frame st + 1 = w then 0 else frame st + 1),
                socketOut := socketOut st @ [((ip (self st), port (self st)), doc)],
                socketFwd := socketFwd st @ [((''127.0.0.1'', 48005), doc)],
                sleeps := sleeps st @ [residual_sleep (intervalDelta st) (clk j)]\<rparr>"
    by auto
  from inv have i: "length (socketOut st) = j" "frame st = int (j mod 100)"
    "interval (self st) = lit_0_01" "interval obj = lit_0_01" "channels (self st) = channels obj"
    "resultDict st ''Fs'' = Some (PInt (Fs obj))" "resultDict st ''n'' = Some (PInt (n obj))"
    "resultDict st ''Channels'' = Some (PInt (channels obj))"
    "resultDict st ''bits'' = Some (PInt (bits obj))"
    and cnt: "\<forall>k \<in> scalar_keys. count_tag k (xmlTemplate (self st)) = count_tag k (xmlTemplate obj)"
    by (simp_all add: loop_inv_def)
  from w i(3) have w100: "w = 100" by (simp add: frame_wrap_100)
  have same: "rd k = resultDict ?st1 k" if "k \<in> scalar_keys" for k
    using set_channels_other [OF sc, of k] channel_key_not_scalar [OF that] by blast
  have tf: "time_field (self st) t f = time_field obj t f" for t f
    by (simp add: time_field_def i(3,4))
  have scalars: "rd ''Fs'' = Some (PInt (Fs obj))" "rd ''n'' = Some (PInt (n obj))"
    "rd ''Channels'' = Some (PInt (channels obj))" "rd ''bits'' = Some (PInt (bits obj))"
    "rd ''Frame'' = Some (PInt (int (j mod 100)))"
    "rd ''Time'' = Some (PStr (time_field obj (clk_now (clk j)) (int (j mod 100))))"
    "rd ''Date'' = Some (PStr (strftime_Ymd (clk_now (clk j))))"
    by (simp_all add: same scalar_keys_def stamp_def i tf)
  have chans: "\<exists>row. index_row payload m = Inr row \<and>
      rd (channel_key m) = Some (PDict [''Payload'' \<mapsto> PArr (Arr1 row)])"
    if "m < nat (channels obj)" for m
    using set_channels_key [OF sc, of m] that i(5) by simp
  from scalars chans have rec: "cycle_record obj (clk j) j payload rd"
    unfolding cycle_record_def by blast
  from scalars have present: "\<forall>k \<in> scalar_keys. rd k \<noteq> None"
    by (simp add: scalar_keys_def)
  from toXML_Inr [OF tx] have lv:
    "toXML_level1 rd (children (xmlTemplate (self st))) = Inr (children doc)"
    by auto
  have "count_tag k doc = count_tag k (xmlTemplate obj)" if "k \<in> scalar_keys" for k
    using toXML_level1_count [OF lv, of k] present cnt that
    by (simp add: count_tag_def)
  then have c1: "\<forall>k \<in> scalar_keys. count_tag k (xmlTemplate (self st2)) = count_tag k (xmlTemplate obj)"
    by (simp add: st2)
  from st2 have "frame st2 = (if frame st + 1 = w then 0 else frame st + 1)" by simp
  also have "\<dots> = int (Suc j mod 100)"
    unfolding i(2) w100 by (rule frame_next)
  finally have c2: "frame st2 = int (Suc j mod 100)" .
  have c3: "length (socketOut st2) = Suc j" "interval (self st2) = lit_0_01"
    "channels (self st2) = channels obj" "resultDict st2 = rd"
    by (simp_all add: st2 i)
  have "loop_inv obj (Suc j) st2"
    unfolding loop_inv_def c3 using c1 c2 scalars i(4) by blast
  moreover from st2 have "socketOut st2 = socketOut st @ [((ip (self st), port (self st)), doc)]"
    by simp
  ultimately show ?thesis
    using rec lv present by blast
qed

lemma drop_eq_ConsD:
  assumes "y # ys = drop j xs"
  shows "j < length xs \<and> xs ! j = y \<and> ys = drop (Suc j) xs"
proof -
  from assms have l: "j < length xs"
    by (cases "j < length xs") auto
  from Cons_nth_drop_Suc [OF l] assms l show ?thesis
    by (metis list.inject)
qed

lemma while_loop_docs:
  assumes "while_loop clk j st gen = Inr st'" and "loop_inv obj j st" and "gen = drop j gen0"
  shows "\<forall>i. j \<le> i \<and> i < length (socketOut st') \<longrightarrow>
              emitted_by obj clk gen0 i (snd (socketOut st' ! i))"
  using assms
proof (induction clk j st gen arbitrary: st' rule: while_loop.induct)
  case (1 clk j st)
  from "1.prems"(1) have "socketOut st' = socketOut st"
    by (auto simp: stop_def split: if_splits)
  with "1.prems"(2) show ?case
    by (auto simp: loop_inv_def)
next
  case (2 clk j st e rest)
  from "2.prems"(1) have "socketOut st' = socketOut st"
    by (auto simp: stop_def split: if_splits)
  with "2.prems"(2) show ?case
    by (auto simp: loop_inv_def)
next
  case (3 clk j st payload rest)
  from "3.prems"(2) have len: "length (socketOut st) = j"
    by (simp add: loop_inv_def)
  show ?case
  proof (cases "stopThread (self st)")
    case True
    with "3.prems"(1) have "st' = st" by simp
    with len show ?thesis by auto
  next
    case False
    with "3.prems"(1) obtain st2 where
      c: "cycle (clk j) (stamp (clk j) st) payload = Inr st2"
      and l: "while_loop clk (Suc j) st2 rest = Inr st'"
      by (auto split: sum.splits)
    from drop_eq_ConsD [OF "3.prems"(3)] have
      g: "j < length gen0" "gen0 ! j = Yield payload" "rest = drop (Suc j) gen0"
      by simp_all
    from cycle_step [of clk j st payload st2 obj, OF c "3.prems"(2)] obtain doc rd where
      inv2: "loop_inv obj (Suc j) st2"
      and so: "socketOut st2 = socketOut st @ [((ip (self st), port (self st)), doc)]"
      and rec: "cycle_record obj (clk j) j payload rd"
      and lv: "toXML_level1 rd (children (xmlTemplate (self st))) = Inr (children doc)"
      and present: "\<forall>k \<in> scalar_keys. rd k \<noteq> None"
      by blast
    from "3.prems"(2) have cnt:
      "\<forall>k \<in> scalar_keys. length (filter (\<lambda>c. tag c = k) (children (xmlTemplate (self st)))) =
         count_tag k (xmlTemplate obj)"
      by (simp add: loop_inv_def count_tag_def)
    from g rec lv cnt have here: "emitted_by obj clk gen0 j doc"
      unfolding emitted_by_def by blast
    from "3.IH" [OF False c l inv2 g(3)] have later:
      "\<forall>i. Suc j \<le> i \<and> i < length (socketOut st') \<longrightarrow>
            emitted_by obj clk gen0 i (snd (socketOut st' ! i))" .
    from while_loop_sockets [OF l] obtain docs where
      "socketOut st' = socketOut st2 @ map (\<lambda>d. ((ip (self st2), port (self st2)), d)) docs"
      by blast
    with so len have "snd (socketOut st' ! j) = doc"
      by (simp add: nth_append)
    with here later show ?thesis
      by (metis Suc_leI le_neq_implies_less)
  qed
qed

lemma run_emitted_by:
  assumes "interval obj = lit_0_01" and "j < length (emitted (run obj env decoded))"
  shows "emitted_by obj (env_cycles env) (readWaveFileGen decoded) j
           (emitted (run obj env decoded) ! j)"
proof (cases "run obj env decoded" rule: observe_cases)
  case (returned st')
  from run_Inr [OF returned] obtain k where
    l: "while_loop (env_cycles env) 0
          \<lparr>self = obj\<lparr>stopThread := False\<rparr>,
           resultDict = [''Fs'' \<mapsto> PInt (Fs obj), ''n'' \<mapsto> PInt (n obj),
                         ''Channels'' \<mapsto> PInt (channels obj), ''bits'' \<mapsto> PInt (bits obj)],
           frame = 0,
           intervalDelta = timedelta_seconds (interval obj),
           socketOut = [], socketFwd = [], sleeps = [], holdoff_sleeps = k\<rparr>
          (readWaveFileGen decoded) = Inr st'" (is "while_loop _ _ ?st0 _ = _")
    by blast
  from assms(1) have "loop_inv obj 0 ?st0"
    by (simp add: loop_inv_def)
  from while_loop_docs [OF l this, of "readWaveFileGen decoded"] assms(2) returned
  show ?thesis
    by (simp add: emitted_def sent_out_def)
next
  case nothing
  with assms(2) show ?thesis by (simp add: emitted_def)
qed

lemma emitted_by_field:
  assumes "emitted_by obj clk gen j doc"
  shows "field ''Frame'' doc = replicate (count_tag ''Frame'' (xmlTemplate obj))
           (Some (str_int (int (j mod 100))))"
    and "field ''Time'' doc = replicate (count_tag ''Time'' (xmlTemplate obj))
           (Some (time_field obj (clk_now (clk j)) (int (j mod 100))))"
    and "field ''Fs'' doc = replicate (count_tag ''Fs'' (xmlTemplate obj)) (Some (str_int (Fs obj)))"
    and "field ''n'' doc = replicate (count_tag ''n'' (xmlTemplate obj)) (Some (str_int (n obj)))"
    and "field ''Channels'' doc = replicate (count_tag ''Channels'' (xmlTemplate obj))
           (Some (str_int (channels obj)))"
    and "field ''bits'' doc = replicate (count_tag ''bits'' (xmlTemplate obj))
           (Some (str_int (bits obj)))"
proof -
  from assms obtain payload rd cs where
    rec: "cycle_record obj (clk j) j payload rd"
    and lv: "toXML_level1 rd cs = Inr (children doc)"
    and cnt: "\<forall>k \<in> scalar_keys. length (filter (\<lambda>c. tag c = k) cs) = count_tag k (xmlTemplate obj)"
    unfolding emitted_by_def by blast
  have f: "field k doc = replicate (count_tag k (xmlTemplate obj)) (Some s)"
    if "k \<in> scalar_keys" "rd k = Some v" "dictTypeConvert k v = Inr (PStr s)" for k v s
    using toXML_level1_field [OF lv that(2) scalar_not_channel [OF that(1)] that(3)] cnt that(1)
    by (simp add: field_def)
  from rec have r: "rd ''Fs'' = Some (PInt (Fs obj))" "rd ''n'' = Some (PInt (n obj))"
    "rd ''Channels'' = Some (PInt (channels obj))" "rd ''bits'' = Some (PInt (bits obj))"
    "rd ''Frame'' = Some (PInt (int (j mod 100)))"
    "rd ''Time'' = Some (PStr (time_field obj (clk_now (clk j)) (int (j mod 100))))"
    by (simp_all add: cycle_record_def)
  show "field ''Frame'' doc = replicate (count_tag ''Frame'' (xmlTemplate obj))
           (Some (str_int (int (j mod 100))))"
    by (rule f [OF _ r(5)]) (simp_all add: scalar_keys_def dictTypeConvert_def)
  show "field ''Time'' doc = replicate (count_tag ''Time'' (xmlTemplate obj))
           (Some (time_field obj (clk_now (clk j)) (int (j mod 100))))"
    by (rule f [OF _ r(6)]) (simp_all add: scalar_keys_def dictTypeConvert_def)
  show "field ''Fs'' doc = replicate (count_tag ''Fs'' (xmlTemplate obj)) (Some (str_int (Fs obj)))"
    by (rule f [OF _ r(1)]) (simp_all add: scalar_keys_def dictTypeConvert_def)
  show "field ''n'' doc = replicate (count_tag ''n'' (xmlTemplate obj)) (Some (str_int (n obj)))"
    by (rule f [OF _ r(2)]) (simp_all add: scalar_keys_def dictTypeConvert_def)
  show "field ''Channels'' doc = replicate (count_tag ''Channels'' (xmlTemplate obj))
           (Some (str_int (channels obj)))"
    by (rule f [OF _ r(3)]) (simp_all add: scalar_keys_def dictTypeConvert_def)
  show "field ''bits'' doc = replicate (count_tag ''bits'' (xmlTemplate obj))
           (Some (str_int (bits obj)))"
    by (rule f [OF _ r(4)]) (simp_all add: scalar_keys_def dictTypeConvert_def)
qed

lemma emitted_by_payload:
  assumes "emitted_by obj clk gen j doc" and "i < nat (channels obj)"
    and "p \<in> set (payloads (channel_key i) doc)"
  shows "\<exists>payload row. j < length gen \<and> gen ! j = Yield payload \<and>
           index_row payload i = Inr row \<and> p = Some (b64encode (tobytes (Arr1 row)))"
proof -
  from assms(1) obtain payload rd cs where
    g: "j < length gen" "gen ! j = Yield payload"
    and rec: "cycle_record obj (clk j) j payload rd"
    and lv: "toXML_level1 rd cs = Inr (children doc)"
    unfolding emitted_by_def by blast
  from rec assms(2) obtain row where
    row: "index_row payload i = Inr row"
      "rd (channel_key i) = Some (PDict [''Payload'' \<mapsto> PArr (Arr1 row)])"
    unfolding cycle_record_def by blast
  from assms(3) obtain c' x where
    "c' \<in> set (children doc)" "tag c' = channel_key i" "x \<in> set (children c')"
    "tag x = ''Payload''" "p = etext x"
    by (auto simp: payloads_def field_def)
  with toXML_level1_payloads [OF lv row(2) startswith_channel_key, of c' x]
  have "p = Some (b64encode (tobytes (Arr1 row)))" by simp
  with g row(1) show ?thesis by blast
qed

lemma map_by_index:
  assumes "\<And>j. j < length xs \<Longrightarrow> f (xs ! j) = g j"
  shows "map f xs = map g [0..<length xs]"
  by (rule nth_equalityI) (simp_all add: assms)

lemma run_frame_fields:
  assumes "interval obj = lit_0_01"
  shows "map (field ''Frame'') (emitted (run obj env decoded)) =
         map (\<lambda>j. replicate (count_tag ''Frame'' (xmlTemplate obj))
                     (Some (str_int (int (j mod 100)))))
           [0..<length (emitted (run obj env decoded))]"
  by (rule map_by_index) (rule emitted_by_field(1) [OF run_emitted_by [OF assms]])

lemma run_time_fields:
  assumes "interval obj = lit_0_01"
  shows "map (field ''Time'') (emitted (run obj env decoded)) =
         map (\<lambda>j. replicate (count_tag ''Time'' (xmlTemplate obj))
                     (Some (strftime_HMS (clk_now (env_cycles env j)) @ ''.'' @
                            fmt_0d 3 (10 * int (j mod 100)))))
           [0..<length (emitted (run obj env decoded))]"
proof (rule map_by_index)
  fix j assume "j < length (emitted (run obj env decoded))"
  from emitted_by_field(2) [OF run_emitted_by [OF assms this]]
  show "field ''Time'' (emitted (run obj env decoded) ! j) =
        replicate (count_tag ''Time'' (xmlTemplate obj))
          (Some (strftime_HMS (clk_now (env_cycles env j)) @ ''.'' @
                 fmt_0d 3 (10 * int (j mod 100))))"
    by (simp add: time_field_def assms frame_millis_10)
qed

lemma run_file_frames:
  assumes "wf_file f" and "channels obj \<le> int (sf_channels f)" and "holds_off env"
    and "frame_wrap (interval obj) = Inr w" and "2 \<le> sf_channels f"
  shows "stopped (run obj env (sf_blocks f 128)) \<and>
         length (emitted (run obj env (sf_blocks f 128))) = length (chunks 128 (sf_frames f))"
proof -
  from sf_blocks_fit [OF assms(1,2,5), of 128] obtain bs where
    "sf_blocks f 128 = map Yield bs" "list_all (block_fits (channels obj)) bs"
    "length bs = length (chunks 128 (sf_frames f))"
    by blast
  with run_total [OF assms(3) this(2) assms(4)] show ?thesis by simp
qed

lemma ex_run_129:
  "holds_off env \<Longrightarrow> length (emitted (run ex_obj env (sf_blocks ex_file_129 128))) = 2"
proof -
  assume h: "holds_off env"
  have w: "wf_file ex_file_129" "channels ex_obj \<le> int (sf_channels ex_file_129)"
    "frame_wrap (interval ex_obj) = Inr 100" "2 \<le> sf_channels ex_file_129"
    by (simp_all add: wf_file_def ex_file_129_def list_all_iff ex_obj_def init_def frame_wrap_100)
  from run_file_frames [OF w(1,2) h w(3,4)] show ?thesis
    by (simp add: chunks_length ex_file_129_def)
qed

section \<open>The frame counter (claim C4)\<close>

text \<open>
  Claim C4: the \<open>Frame\<close> values emitted by a run are 0, 1, 2, ..., 99, 0, 1, ...: the
  counter goes up by one with each cycle and is back at 0 when it reaches
  \<open>round(1 / interval)\<close>, which is 100 and is also the \<open>int(1 / interval)\<close> of the
  source. The \<open>Frame\<close> text of the document of cycle \<open>j\<close> is \<open>j mod 100\<close>, in each
  \<open>Frame\<close> node that the template declares.
\<close>

theorem C4_frame_counter:
  "map (field ''Frame'') (emitted (run (init path chans addr prt template) env decoded)) =
     map (\<lambda>j. replicate (count_tag ''Frame'' template) (Some (str_int (int (j mod 100)))))
       [0..<length (emitted (run (init path chans addr prt template) env decoded))] \<and>
   and_then (fdiv (float_of_int 1) (interval (init path chans addr prt template)))
     (\<lambda>q. Inr (round_float q)) = Inr 100 \<and>
   frame_wrap (interval (init path chans addr prt template)) = Inr 100"
proof -
  have i: "interval (init path chans addr prt template) = lit_0_01"
    "xmlTemplate (init path chans addr prt template) = template"
    by (simp_all add: init_def)
  have "and_then (fdiv (float_of_int 1) lit_0_01) (\<lambda>q. Inr (round_float q)) = Inr 100"
    by (simp add: float_eval)
  with run_frame_fields [OF i(1), of env decoded] show ?thesis
    by (simp add: i frame_wrap_100)
qed

theorem C4_frame_counter_witness:
  "map (field ''Frame'') (emitted (run ex_obj ex_env (sf_blocks ex_file 128))) = [[Some ''0'']] \<and>
   length (emitted (run ex_obj ex_env (sf_blocks ex_file 128))) = 1"
  using C4_frame_counter [of "''example.flac''" 2 "''127.0.0.1''" 48001 ex_template ex_env
      "sf_blocks ex_file 128"] run_ex
  by (simp add: ex_obj_def emitted_def count_tag_def ex_template_def str_eval)

section \<open>The Time values (claim C1)\<close>

text \<open>
  Claim C1, as stated: for a fixed synchronisation instant the \<open>Time\<close> values of a run
  are an arithmetic progression with step \<open>interval\<close>, and two runs that differ only in
  delays inside the cycles emit the same \<open>Time\<close> values. This does not hold: the hours,
  minutes and seconds of each value are read from the clock at the top of its cycle. Two
  runs on a file of two blocks, with the same start and the same polls before the top of
  the second: the one whose first cycle is held up emits 12:00:02.010 where the other
  emits 12:00:00.010.
\<close>

theorem C1_delay_counterexample:
  "map (field ''Time'') (emitted (run ex_obj ex_env (sf_blocks ex_file_129 128))) =
     [[Some ''12:00:00.000''], [Some ''12:00:00.010'']] \<and>
   map (field ''Time'') (emitted (run ex_obj ex_env_delayed (sf_blocks ex_file_129 128))) =
     [[Some ''12:00:00.000''], [Some ''12:00:02.010'']] \<and>
   env_startTime ex_env = env_startTime ex_env_delayed \<and>
   env_polls ex_env = env_polls ex_env_delayed"
proof -
  have h: "holds_off ex_env" "holds_off ex_env_delayed"
    by (simp_all add: holds_off_def ex_env_def ex_env_delayed_def at_time_def)
  have i: "interval ex_obj = lit_0_01" "count_tag ''Time'' (xmlTemplate ex_obj) = 1"
    by (simp_all add: ex_obj_def init_def count_tag_def ex_template_def)
  have u: "[0..<2] = [0, Suc 0]"
    by (simp add: upt_rec)
  from run_time_fields [OF i(1), of ex_env "sf_blocks ex_file_129 128"] ex_run_129 [OF h(1)]
  have a: "map (field ''Time'') (emitted (run ex_obj ex_env (sf_blocks ex_file_129 128))) =
     [[Some ''12:00:00.000''], [Some ''12:00:00.010'']]"
    by (simp add: i(2) u ex_env_def at_time_def str_eval)
  from run_time_fields [OF i(1), of ex_env_delayed "sf_blocks ex_file_129 128"]
    ex_run_129 [OF h(2)]
  have b: "map (field ''Time'') (emitted (run ex_obj ex_env_delayed (sf_blocks ex_file_129 128))) =
     [[Some ''12:00:00.000''], [Some ''12:00:02.010'']]"
    by (simp add: i(2) u ex_env_delayed_def at_time_def str_eval)
  from a b show ?thesis
    by (simp add: ex_env_def ex_env_delayed_def)
qed

text \<open>
  Claim C1, amended: the \<open>Time\<close> value of the frame of cycle \<open>j\<close> is the hours,
  minutes and seconds of the clock reading at the top of cycle \<open>j\<close>, then a point and the
  three digits of ten times \<open>j mod 100\<close>: the milliseconds come from the frame counter
  alone, whatever the clock reads. Two runs on the same input that emit the same number
  of frames, and whose readings at the top of each of these cycles show the same hour,
  minute and second, emit the same \<open>Time\<close> values.
\<close>

theorem C1_time_values:
  "map (field ''Time'') (emitted (run (init path chans addr prt template) env decoded)) =
     map (\<lambda>j. replicate (count_tag ''Time'' template)
                 (Some (strftime_HMS (clk_now (env_cycles env j)) @ ''.'' @
                        fmt_0d 3 (10 * int (j mod 100)))))
       [0..<length (emitted (run (init path chans addr prt template) env decoded))] \<and>
   (length (emitted (run (init path chans addr prt template) env decoded)) =
      length (emitted (run (init path chans addr prt template) env' decoded)) \<and>
    (\<forall>j < length (emitted (run (init path chans addr prt template) env decoded)).
        strftime_HMS (clk_now (env_cycles env j)) = strftime_HMS (clk_now (env_cycles env' j)))
    \<longrightarrow>
    map (field ''Time'') (emitted (run (init path chans addr prt template) env decoded)) =
    map (field ''Time'') (emitted (run (init path chans addr prt template) env' decoded)))"
proof -
  let ?obj = "init path chans addr prt template"
  have i: "interval ?obj = lit_0_01" "xmlTemplate ?obj = template"
    by (simp_all add: init_def)
  note one = run_time_fields [OF i(1), of env decoded] run_time_fields [OF i(1), of env' decoded]
  show ?thesis
  proof (intro conjI impI)
    from one(1) show "map (field ''Time'') (emitted (run ?obj env decoded)) =
        map (\<lambda>j. replicate (count_tag ''Time'' template)
                    (Some (strftime_HMS (clk_now (env_cycles env j)) @ ''.'' @
                           fmt_0d 3 (10 * int (j mod 100)))))
          [0..<length (emitted (run ?obj env decoded))]"
      by (simp only: i(2))
  next
    assume a: "length (emitted (run ?obj env decoded)) = length (emitted (run ?obj env' decoded)) \<and>
      (\<forall>j < length (emitted (run ?obj env decoded)).
          strftime_HMS (clk_now (env_cycles env j)) = strftime_HMS (clk_now (env_cycles env' j)))"
    then have "map (\<lambda>j. replicate (count_tag ''Time'' (xmlTemplate ?obj))
                    (Some (strftime_HMS (clk_now (env_cycles env j)) @ ''.'' @
                           fmt_0d 3 (10 * int (j mod 100)))))
          [0..<length (emitted (run ?obj env decoded))] =
        map (\<lambda>j. replicate (count_tag ''Time'' (xmlTemplate ?obj))
                    (Some (strftime_HMS (clk_now (env_cycles env' j)) @ ''.'' @
                           fmt_0d 3 (10 * int (j mod 100)))))
          [0..<length (emitted (run ?obj env' decoded))]"
      by simp
    with one show "map (field ''Time'') (emitted (run ?obj env decoded)) =
        map (field ''Time'') (emitted (run ?obj env' decoded))"
      by (simp only:)
  qed
qed

theorem C1_time_values_witness:
  "map (field ''Time'') (emitted (run ex_obj ex_env (sf_blocks ex_file 128))) =
     map (field ''Time'') (emitted (run ex_obj ex_env_delayed (sf_blocks ex_file 128))) \<and>
   map (field ''Time'') (emitted (run ex_obj ex_env_delayed (sf_blocks ex_file 128))) =
     [[Some ''12:00:00.000'']] \<and>
   length (emitted (run ex_obj ex_env (sf_blocks ex_file 128))) = 1 \<and>
   length (emitted (run ex_obj ex_env_delayed (sf_blocks ex_file 128))) = 1"
proof -
  have l: "emitted (run ex_obj ex_env (sf_blocks ex_file 128)) = [ex_doc]"
    "emitted (run ex_obj ex_env_delayed (sf_blocks ex_file 128)) = [ex_doc]"
    using run_ex run_ex_delayed by (simp_all add: emitted_def)
  have h: "strftime_HMS (clk_now (env_cycles ex_env 0)) =
      strftime_HMS (clk_now (env_cycles ex_env_delayed 0))"
    by (simp add: ex_env_def ex_env_delayed_def at_time_def strftime_HMS_def)
  note t = C1_time_values [of "''example.flac''" 2 "''127.0.0.1''" 48001 ex_template ex_env
      "sf_blocks ex_file 128" ex_env_delayed, folded ex_obj_def]
  from t [THEN conjunct2] l h have
    "map (field ''Time'') (emitted (run ex_obj ex_env (sf_blocks ex_file 128))) =
     map (field ''Time'') (emitted (run ex_obj ex_env_delayed (sf_blocks ex_file 128)))"
    by simp
  moreover have "field ''Time'' ex_doc = [Some ''12:00:00.000'']"
    by (simp add: field_def ex_doc_def)
  ultimately show ?thesis
    using l by simp
qed

section \<open>The round trip of a frame (claim C7)\<close>

lemma chunks_nth:
  "j < length (chunks k xs) \<Longrightarrow> chunks k xs ! j = take k (drop (j * k) xs)"
proof (induction j arbitrary: xs)
  case 0
  from "0.prems" have "\<not> (k = 0 \<or> xs = [])"
    by (subst (asm) chunks.simps) (auto split: if_splits)
  then have "chunks k xs = take k xs # chunks k (drop k xs)"
    by (subst chunks.simps) simp
  then show ?case by simp
next
  case (Suc j)
  from Suc.prems have n: "\<not> (k = 0 \<or> xs = [])"
    by (subst (asm) chunks.simps) (auto split: if_splits)
  then have c: "chunks k xs = take k xs # chunks k (drop k xs)"
    by (subst chunks.simps) simp
  with Suc.prems have "j < length (chunks k (drop k xs))" by simp
  from Suc.IH [OF this] c show ?case
    by (simp add: add.commute)
qed

lemma transpose_rect_nth:
  assumes "c \<noteq> []" and "\<forall>r \<in> set c. length r = m" and "i < m"
  shows "transpose c ! i = map (\<lambda>fr. fr ! i) c"
proof -
  from length_transpose_rect [OF assms(1,2)] assms(3) have "i < length (transpose c)" by simp
  from nth_transpose [OF this] have
    "transpose c ! i = map (\<lambda>xs. xs ! i) (filter (\<lambda>ys. i < length ys) c)" .
  moreover from assms(2,3) have "filter (\<lambda>ys. i < length ys) c = c"
    by (simp add: filter_id_conv)
  ultimately show ?thesis by simp
qed

lemma wf_file_gen:
  assumes "2 \<le> sf_channels f"
  shows "readWaveFileGen (sf_blocks f k) =
         map (\<lambda>c. Yield (Arr2 (map (map byteswap16) (transpose c)))) (chunks k (sf_frames f))"
proof -
  from assms have "sf_channels f \<noteq> 1" by simp
  then have "sf_blocks f k = map Yield (map Arr2 (chunks k (sf_frames f)))"
    by (simp add: sf_blocks_def)
  then have "readWaveFileGen (sf_blocks f k) =
      map Yield (map (\<lambda>b. byteswap (arr_T b)) (map Arr2 (chunks k (sf_frames f))))"
    by (simp only: readWaveFileGen_Yield)
  then show ?thesis
    by (simp add: comp_def)
qed

lemma file_payload:
  assumes "wf_file f" and two: "2 \<le> sf_channels f" and ch: "int i < int (sf_channels f)"
    and g: "j < length (readWaveFileGen (sf_blocks f 128))"
      "readWaveFileGen (sf_blocks f 128) ! j = Yield payload"
    and row: "index_row payload i = Inr row"
  shows "tobytes (Arr1 row) =
         concat (map (\<lambda>fr. be_bytes (fr ! i)) (take 128 (drop (j * 128) (sf_frames f))))"
proof -
  let ?c = "chunks 128 (sf_frames f) ! j"
  from g(1) have j: "j < length (chunks 128 (sf_frames f))"
    by (simp add: wf_file_gen [OF two])
  with g(2) have p: "payload = Arr2 (map (map byteswap16) (transpose ?c))"
    by (simp add: wf_file_gen [OF two])
  from j have "?c \<in> set (chunks 128 (sf_frames f))" by simp
  from chunks_member [OF this] assms(1) have c: "?c \<noteq> []" "\<forall>r \<in> set ?c. length r = sf_channels f"
    by (auto simp: wf_file_def list_all_iff)
  from ch have "i < sf_channels f" by simp
  from transpose_rect_nth [OF c this] length_transpose_rect [OF c] this row p
  have "row = map byteswap16 (map (\<lambda>fr. fr ! i) ?c)"
    by simp
  then have "tobytes (Arr1 row) = concat (map be_bytes (map (\<lambda>fr. fr ! i) ?c))"
    by (simp only: tobytes_byteswap)
  with chunks_nth [OF j] show ?thesis
    by (simp add: comp_def)
qed

text \<open>
  Claim C7, as stated: for every frame the document gives back \<open>Fs\<close>, \<open>n\<close>,
  \<open>Channels\<close> and \<open>bits\<close> as decimal strings, and the Base64 decoding of each
  \<open>Payload\<close> is the big-endian buffer of the channel, of \<open>n\<close> samples and \<open>2n\<close>
  bytes. The size does not hold for the frame of a partial block: the file of one frame
  gives a frame whose payload decodes to 2 bytes, while \<open>n\<close> is 128.
\<close>

theorem C7_short_payload_counterexample:
  "emitted (run ex_obj ex_env (sf_blocks ex_file 128)) = [ex_doc] \<and>
   payloads ''Channel_0'' ex_doc = [Some ''AQI=''] \<and>
   b64decode ''AQI='' = [0x01, 0x02] \<and>
   field ''n'' ex_doc = [Some ''128''] \<and>
   n ex_obj = 128"
  using run_ex
  by (simp add: emitted_def ex_doc_def payloads_def field_def b64val_def b64chars_def
      ex_obj_def init_def samples_per_frame_128)

text \<open>
  Claim C7, amended: for every frame the document gives \<open>Fs\<close>, \<open>n\<close>, \<open>Channels\<close> and
  \<open>bits\<close> as the decimal strings of the configured values, and the Base64 decoding of
  each \<open>Payload\<close> of channel \<open>i\<close> is, byte for byte, the big-endian 16-bit buffer of
  the samples of that channel in the block of the frame: \<open>2n\<close> bytes for a full block,
  fewer for the partial block at the end. The file has at least two channels, and at
  least as many as are configured, and each of its frames has one sample for each channel.
\<close>

theorem C7_round_trip:
  assumes "2 \<le> sf_channels f" and "wf_file f" and "chans \<le> int (sf_channels f)"
    and "j < length (emitted (run (init path chans addr prt template) env (sf_blocks f 128)))"
  shows "field ''Fs'' (emitted (run (init path chans addr prt template) env (sf_blocks f 128)) ! j) =
           replicate (count_tag ''Fs'' template) (Some (str_int 12800)) \<and>
         field ''n'' (emitted (run (init path chans addr prt template) env (sf_blocks f 128)) ! j) =
           replicate (count_tag ''n'' template) (Some (str_int 128)) \<and>
         field ''Channels''
             (emitted (run (init path chans addr prt template) env (sf_blocks f 128)) ! j) =
           replicate (count_tag ''Channels'' template) (Some (str_int chans)) \<and>
         field ''bits'' (emitted (run (init path chans addr prt template) env (sf_blocks f 128)) ! j) =
           replicate (count_tag ''bits'' template) (Some (str_int 16)) \<and>
         (\<forall>i < nat chans.
            \<forall>p \<in> set (payloads (channel_key i)
                         (emitted (run (init path chans addr prt template) env (sf_blocks f 128)) ! j)).
              \<exists>t. p = Some t \<and>
                b64decode t =
                  concat (map (\<lambda>fr. be_bytes (fr ! i)) (take 128 (drop (j * 128) (sf_frames f)))) \<and>
                length (b64decode t) = 2 * min 128 (length (sf_frames f) - j * 128))"
proof -
  let ?obj = "init path chans addr prt template"
  let ?doc = "emitted (run ?obj env (sf_blocks f 128)) ! j"
  have i: "interval ?obj = lit_0_01" "xmlTemplate ?obj = template" "Fs ?obj = 12800"
    "n ?obj = 128" "channels ?obj = chans" "bits ?obj = 16"
    by (simp_all add: init_def samples_per_frame_128)
  from run_emitted_by [OF i(1) assms(4)] have
    e: "emitted_by ?obj (env_cycles env) (readWaveFileGen (sf_blocks f 128)) j ?doc" .
  have pay: "\<exists>t. p = Some t \<and>
      b64decode t = concat (map (\<lambda>fr. be_bytes (fr ! i)) (take 128 (drop (j * 128) (sf_frames f)))) \<and>
      length (b64decode t) = 2 * min 128 (length (sf_frames f) - j * 128)"
    if "i < nat chans" "p \<in> set (payloads (channel_key i) ?doc)" for i p
  proof -
    from that(1) have "i < nat (channels ?obj)" by (simp add: i)
    from emitted_by_payload [OF e this that(2)] obtain payload row where
      g: "j < length (readWaveFileGen (sf_blocks f 128))"
         "readWaveFileGen (sf_blocks f 128) ! j = Yield payload"
      and row: "index_row payload i = Inr row"
      and p: "p = Some (b64encode (tobytes (Arr1 row)))"
      by blast
    from that(1) assms(3) have "int i < int (sf_channels f)" by linarith
    from file_payload [OF assms(2,1) this g row] have
      t: "tobytes (Arr1 row) =
          concat (map (\<lambda>fr. be_bytes (fr ! i)) (take 128 (drop (j * 128) (sf_frames f))))" .
    have "length (concat (map (\<lambda>fr. be_bytes (fr ! i)) xs)) = 2 * length xs" for xs
      using length_be_bytes [of "map (\<lambda>fr. fr ! i) xs"] by (simp add: comp_def)
    with p t show ?thesis
      by (simp add: b64decode_b64encode)
  qed
  from emitted_by_field(3-6) [OF e] pay show ?thesis
    by (simp only: i) blast
qed

theorem C7_round_trip_witness:
  "field ''Fs'' (emitted (run ex_obj ex_env (sf_blocks ex_file 128)) ! 0) = [Some ''12800''] \<and>
   field ''n'' (emitted (run ex_obj ex_env (sf_blocks ex_file 128)) ! 0) = [Some ''128''] \<and>
   field ''Channels'' (emitted (run ex_obj ex_env (sf_blocks ex_file 128)) ! 0) = [Some ''2''] \<and>
   field ''bits'' (emitted (run ex_obj ex_env (sf_blocks ex_file 128)) ! 0) = [Some ''16''] \<and>
   payloads ''Channel_1'' (emitted (run ex_obj ex_env (sf_blocks ex_file 128)) ! 0) =
     [Some ''AwQ=''] \<and>
   b64decode ''AwQ='' = [0x03, 0x04]"
proof -
  have w: "2 \<le> sf_channels ex_file" "wf_file ex_file" "2 \<le> int (sf_channels ex_file)"
    by (simp_all add: wf_file_def ex_file_def)
  have d: "emitted (run (init ''example.flac'' 2 ''127.0.0.1'' 48001 ex_template)
      ex_env (sf_blocks ex_file 128)) = [ex_doc]"
    using run_ex by (simp add: emitted_def ex_obj_def)
  then have l: "0 < length (emitted (run (init ''example.flac'' 2 ''127.0.0.1'' 48001 ex_template)
      ex_env (sf_blocks ex_file 128)))"
    by simp
  note rt = C7_round_trip [OF w l]
  note pay = rt [THEN conjunct2, THEN conjunct2, THEN conjunct2, THEN conjunct2, rule_format,
      of 1 "Some ''AwQ=''"]
  have p: "payloads ''Channel_1'' ex_doc = [Some ''AwQ='']"
    by (simp add: payloads_def field_def ex_doc_def)
  have k: "channel_key 1 = ''Channel_1''"
    by (simp add: channel_key_def str_eval)
  have m: "Some ''AwQ='' \<in> set (payloads (channel_key 1)
      (emitted (run (init ''example.flac'' 2 ''127.0.0.1'' 48001 ex_template)
         ex_env (sf_blocks ex_file 128)) ! 0))"
    by (simp only: d k p nth_Cons_0) simp
  from pay [OF _ m] have b: "b64decode ''AwQ='' = [0x03, 0x04]"
    by (auto simp: ex_file_def be_bytes_def)
  have f: "field ''Fs'' ex_doc = [Some ''12800'']" "field ''n'' ex_doc = [Some ''128'']"
    "field ''Channels'' ex_doc = [Some ''2'']" "field ''bits'' ex_doc = [Some ''16'']"
    by (simp_all add: field_def ex_doc_def)
  from d have "emitted (run ex_obj ex_env (sf_blocks ex_file 128)) ! 0 = ex_doc"
    by (simp add: ex_obj_def)
  with f p b show ?thesis
    by (simp only: simp_thms)
qed

end
